theory Spec2Isabelle
  imports Main "HOL-Library.AList" "HOL-Library.Sublist"
begin

section \<open>Paths (pathlib.PurePath on absolute, normalised paths)\<close>

text \<open>
  A resolved \<^verbatim>\<open>Path\<close> is the list of its components below the root; the root itself
  is the empty list. File contents are byte strings. \<^verbatim>\<open>Path.resolve()\<close> is the identity
  on such paths: symbolic links are not part of the model.
\<close>

type_synonym path = "string list"
type_synonym bytes = "string"

definition name :: "path \<Rightarrow> string" where
  "name p = (if p = [] then [] else last p)"

text \<open>\<^verbatim>\<open>str.rfind('.')\<close>: index of the last dot, or -1.\<close>

definition rfind_dot :: "string \<Rightarrow> int" where
  "rfind_dot s =
     (if CHR ''.'' \<in> set s
      then int (length s) - 1 - int (length (takeWhile (\<lambda>c. c \<noteq> CHR ''.'') (rev s)))
      else - 1)"

text \<open>
  \<^verbatim>\<open>PurePath.suffix\<close> and \<^verbatim>\<open>PurePath.stem\<close> (CPython 3.4 to 3.13): the name is cut at its
  last dot when \<^verbatim>\<open>0 < i < len(name) - 1\<close>.
\<close>

definition suffix :: "path \<Rightarrow> string" where
  "suffix p =
     (let nm = name p; i = rfind_dot nm
      in if 0 < i \<and> i < int (length nm) - 1 then drop (nat i) nm else [])"

definition stem :: "path \<Rightarrow> string" where
  "stem p =
     (let nm = name p; i = rfind_dot nm
      in if 0 < i \<and> i < int (length nm) - 1 then take (nat i) nm else nm)"

text \<open>\<^verbatim>\<open>PurePath.parents\<close>: the proper ancestors, nearest first.\<close>

definition parents :: "path \<Rightarrow> path list" where
  "parents p = map (\<lambda>n. take n p) (rev [0..<length p])"

text \<open>
  A character of a file name is a code point from U+0000 to U+00FF; names with other
  characters are outside the model. On such text \<^verbatim>\<open>str.lower()\<close> works character by
  character. The upper-case letters (\<^verbatim>\<open>str.isupper()\<close>) are A to Z (65 to 90), U+00C0 to
  U+00D6 (192 to 214) and U+00D8 to U+00DE (216 to 222); the lower-case form of each is 32
  above it. Every other character is its own lower-case form, the multiplication sign
  U+00D7, the sharp s U+00DF and the micro sign U+00B5 included.
\<close>

definition isupper :: "char \<Rightarrow> bool" where
  "isupper c \<longleftrightarrow>
     (65::nat) \<le> of_char c \<and> of_char c \<le> (90::nat)
     \<or> (192::nat) \<le> of_char c \<and> of_char c \<le> (214::nat)
     \<or> (216::nat) \<le> of_char c \<and> of_char c \<le> (222::nat)"

definition lower_char :: "char \<Rightarrow> char" where
  "lower_char c = (if isupper c then char_of (of_char c + (32::nat)) else c)"

text \<open>\<^verbatim>\<open>str.lower()\<close> and \<^verbatim>\<open>str.lstrip('.')\<close>.\<close>

definition lower :: "string \<Rightarrow> string" where
  "lower s = map lower_char s"

definition lstrip_dot :: "string \<Rightarrow> string" where
  "lstrip_dot s = dropWhile (\<lambda>c. c = CHR ''.'') s"

text \<open>
  Lines 65 and 118: \<^verbatim>\<open>src_path.suffix.lower().lstrip(".") or "no_extension"\<close>.
\<close>

definition ext_folder :: "path \<Rightarrow> string" where
  "ext_folder p =
     (let e = lstrip_dot (lower (suffix p)) in if e = [] then ''no_extension'' else e)"

text \<open>
  Lines 80-81 and 89-90:
  \<^verbatim>\<open>f"{src_path.stem}_{short_hash}{src_path.suffix}"\<close> with \<^verbatim>\<open>short_hash = src_hash[:8]\<close>.
\<close>

definition new_name :: "path \<Rightarrow> string \<Rightarrow> string" where
  "new_name src_path src_hash =
     (let short_hash = take 8 src_hash
      in stem src_path @ ''_'' @ short_hash @ suffix src_path)"

definition str_path :: "path \<Rightarrow> string" where
  "str_path p = (if p = [] then ''/'' else concat (map (\<lambda>c. ''/'' @ c) p))"

section \<open>The file system, the log and the instrumentation trace\<close>

datatype node = File bytes | Dir

text \<open>All exceptions the file operations raise are subclasses of \<^verbatim>\<open>OSError\<close>.\<close>

datatype exn =
    FileNotFoundError path
  | FileExistsError path
  | IsADirectoryError path
  | NotADirectoryError path
  | PermissionError path

fun is_OSError :: "exn \<Rightarrow> bool" where
  "is_OSError (FileNotFoundError _) = True"
| "is_OSError (FileExistsError _) = True"
| "is_OSError (IsADirectoryError _) = True"
| "is_OSError (NotADirectoryError _) = True"
| "is_OSError (PermissionError _) = True"

fun is_PermissionError :: "exn \<Rightarrow> bool" where
  "is_PermissionError (PermissionError _) = True"
| "is_PermissionError _ = False"

fun is_FileNotFoundError :: "exn \<Rightarrow> bool" where
  "is_FileNotFoundError (FileNotFoundError _) = True"
| "is_FileNotFoundError _ = False"

fun is_FileExistsError :: "exn \<Rightarrow> bool" where
  "is_FileExistsError (FileExistsError _) = True"
| "is_FileExistsError _ = False"

fun str_exn :: "exn \<Rightarrow> string" where
  "str_exn (FileNotFoundError p) = ''[Errno 2] No such file or directory: '' @ str_path p"
| "str_exn (FileExistsError p) = ''[Errno 17] File exists: '' @ str_path p"
| "str_exn (IsADirectoryError p) = ''[Errno 21] Is a directory: '' @ str_path p"
| "str_exn (NotADirectoryError p) = ''[Errno 20] Not a directory: '' @ str_path p"
| "str_exn (PermissionError p) = ''[Errno 13] Permission denied: '' @ str_path p"

datatype log_record = INFO string | ERROR string

text \<open>
  Instrumentation: every call of \<^verbatim>\<open>compute_hash\<close> and every attempt to open a file for
  writing is recorded, the latter with whether the parent directory existed at that moment.
\<close>

datatype event = HashCall path | WriteOpen path bool

text \<open>
  The world: the directory entries in enumeration order, the paths the process may not
  open or create (\<^verbatim>\<open>PermissionError\<close>), the size \<^verbatim>\<open>stat\<close> reports for a directory, the
  log and the trace.
\<close>

record world =
  nodes :: "(path \<times> node) list"
  denied :: "path set"
  dir_st_size :: nat
  logged :: "log_record list"
  trace :: "event list"

definition node_at :: "world \<Rightarrow> path \<Rightarrow> node option" where
  "node_at w p = (if p = [] then Some Dir else map_of (nodes w) p)"

definition is_dir :: "world \<Rightarrow> path \<Rightarrow> bool" where
  "is_dir w p = (node_at w p = Some Dir)"

definition is_file :: "world \<Rightarrow> path \<Rightarrow> bool" where
  "is_file w p = (case node_at w p of Some (File _) \<Rightarrow> True | _ \<Rightarrow> False)"

definition file_bytes :: "world \<Rightarrow> path \<Rightarrow> bytes" where
  "file_bytes w p = (case node_at w p of Some (File bs) \<Rightarrow> bs | _ \<Rightarrow> [])"

section \<open>Computations that change the world and may raise\<close>

type_synonym 'a io = "world \<Rightarrow> (exn + 'a) \<times> world"

definition io_return :: "'a \<Rightarrow> 'a io" where
  "io_return x = (\<lambda>w. (Inr x, w))"

definition io_raise :: "exn \<Rightarrow> 'a io" where
  "io_raise e = (\<lambda>w. (Inl e, w))"

definition io_bind :: "'a io \<Rightarrow> ('a \<Rightarrow> 'b io) \<Rightarrow> 'b io" where
  "io_bind m k = (\<lambda>w. case m w of (Inl e, w') \<Rightarrow> (Inl e, w') | (Inr x, w') \<Rightarrow> k x w')"

definition logging_info :: "string \<Rightarrow> unit io" where
  "logging_info msg = (\<lambda>w. (Inr (), w\<lparr>logged := logged w @ [INFO msg]\<rparr>))"

definition logging_error :: "string \<Rightarrow> unit io" where
  "logging_error msg = (\<lambda>w. (Inr (), w\<lparr>logged := logged w @ [ERROR msg]\<rparr>))"

definition record_event :: "event \<Rightarrow> unit io" where
  "record_event ev = (\<lambda>w. (Inr (), w\<lparr>trace := trace w @ [ev]\<rparr>))"

subsection \<open>Operating-system calls\<close>

definition path_exists :: "path \<Rightarrow> bool io" where
  "path_exists p = (\<lambda>w. (Inr (node_at w p \<noteq> None), w))"

definition stat_st_size :: "path \<Rightarrow> nat io" where
  "stat_st_size p = (\<lambda>w.
     case node_at w p of
       None \<Rightarrow> (Inl (FileNotFoundError p), w)
     | Some Dir \<Rightarrow> (Inr (dir_st_size w), w)
     | Some (File bs) \<Rightarrow> (Inr (length bs), w))"

definition os_mkdir :: "path \<Rightarrow> unit io" where
  "os_mkdir p = (\<lambda>w.
     if p = [] then (Inl (FileExistsError p), w)
     else case node_at w (butlast p) of
       None \<Rightarrow> (Inl (FileNotFoundError p), w)
     | Some (File _) \<Rightarrow> (Inl (NotADirectoryError p), w)
     | Some Dir \<Rightarrow>
         (case node_at w p of
            Some _ \<Rightarrow> (Inl (FileExistsError p), w)
          | None \<Rightarrow>
              if p \<in> denied w then (Inl (PermissionError p), w)
              else (Inr (), w\<lparr>nodes := nodes w @ [(p, Dir)]\<rparr>)))"

text \<open>
  \<^verbatim>\<open>os.makedirs(name, exist_ok=True)\<close>: create the missing parent first (a
  \<^verbatim>\<open>FileExistsError\<close> from that is ignored), then \<^verbatim>\<open>mkdir\<close>; an \<^verbatim>\<open>OSError\<close> of the final
  \<^verbatim>\<open>mkdir\<close> is swallowed when the path is a directory.
\<close>

function makedirs :: "path \<Rightarrow> unit io" where
  "makedirs p w =
     (case (if p \<noteq> [] \<and> node_at w (butlast p) = None
            then (case makedirs (butlast p) w of
                    (Inl e, w') \<Rightarrow> if is_FileExistsError e then (Inr (), w') else (Inl e, w')
                  | (Inr u, w') \<Rightarrow> (Inr u, w'))
            else (Inr (), w)) of
        (Inl e, w1) \<Rightarrow> (Inl e, w1)
      | (Inr _, w1) \<Rightarrow>
          (case os_mkdir p w1 of
             (Inl e, w2) \<Rightarrow> if is_dir w2 p then (Inr (), w2) else (Inl e, w2)
           | (Inr u, w2) \<Rightarrow> (Inr u, w2)))"
  by pat_completeness auto
termination
  by (relation "measure (\<lambda>(p, w). length p)") auto

text \<open>
  \<^verbatim>\<open>Path.mkdir(parents=True, exist_ok=True)\<close>: try \<^verbatim>\<open>os.mkdir\<close>; on
  \<^verbatim>\<open>FileNotFoundError\<close> create the parent the same way and retry without \<^verbatim>\<open>parents\<close>; any
  other \<^verbatim>\<open>OSError\<close> is swallowed when the path is a directory.
\<close>

function path_mkdir :: "path \<Rightarrow> unit io" where
  "path_mkdir p w =
     (case os_mkdir p w of
        (Inr u, w1) \<Rightarrow> (Inr u, w1)
      | (Inl e, w1) \<Rightarrow>
          if is_FileNotFoundError e then
            (if p = [] then (Inl e, w1)
             else case path_mkdir (butlast p) w1 of
                    (Inl e', w2) \<Rightarrow> (Inl e', w2)
                  | (Inr _, w2) \<Rightarrow>
                      (case os_mkdir p w2 of
                         (Inr u, w3) \<Rightarrow> (Inr u, w3)
                       | (Inl e2, w3) \<Rightarrow>
                           if is_FileNotFoundError e2 then (Inl e2, w3)
                           else if is_dir w3 p then (Inr (), w3) else (Inl e2, w3)))
          else if is_dir w1 p then (Inr (), w1) else (Inl e, w1))"
  by pat_completeness auto
termination
  by (relation "measure (\<lambda>(p, w). length p)") auto

text \<open>\<^verbatim>\<open>open(p, "rb")\<close>: the handle is the path; reads see the file as it is then.\<close>

definition open_rb :: "path \<Rightarrow> path io" where
  "open_rb p = (\<lambda>w.
     case node_at w p of
       None \<Rightarrow> (Inl (FileNotFoundError p), w)
     | Some n \<Rightarrow>
         if p \<in> denied w then (Inl (PermissionError p), w)
         else (case n of Dir \<Rightarrow> (Inl (IsADirectoryError p), w) | File _ \<Rightarrow> (Inr p, w)))"

text \<open>\<^verbatim>\<open>open(p, "wb")\<close>: creates the file or truncates it.\<close>

definition open_wb :: "path \<Rightarrow> path io" where
  "open_wb p = (\<lambda>w0.
     let w = w0\<lparr>trace := trace w0 @ [WriteOpen p (is_dir w0 (butlast p))]\<rparr>
     in if p \<in> denied w then (Inl (PermissionError p), w)
        else case node_at w p of
          Some Dir \<Rightarrow> (Inl (IsADirectoryError p), w)
        | Some (File _) \<Rightarrow> (Inr p, w\<lparr>nodes := AList.update p (File []) (nodes w)\<rparr>)
        | None \<Rightarrow>
            (case node_at w (butlast p) of
               None \<Rightarrow> (Inl (FileNotFoundError p), w)
             | Some (File _) \<Rightarrow> (Inl (NotADirectoryError p), w)
             | Some Dir \<Rightarrow> (Inr p, w\<lparr>nodes := AList.update p (File []) (nodes w)\<rparr>)))"

definition file_write :: "path \<Rightarrow> bytes \<Rightarrow> world \<Rightarrow> world" where
  "file_write dst_f data w =
     w\<lparr>nodes := AList.update dst_f (File (file_bytes w dst_f @ data)) (nodes w)\<rparr>"

section \<open>task1_copy_sort.py\<close>

definition CHUNK_SIZE :: nat where
  "CHUNK_SIZE = 65536"


text \<open>
  Lines 50-59, \<^verbatim>\<open>compute_hash\<close>. The hash object is the bytes it has been fed;
  \<^verbatim>\<open>hexdigest\<close> applies the digest function \<open>H\<close> (SHA-256 as a hex string), a parameter.
  The loop runs over the bytes not yet read.
\<close>

function hash_chunks :: "bytes \<Rightarrow> bytes \<Rightarrow> bytes" where
  "hash_chunks hash_obj pending =
     (let chunk = take CHUNK_SIZE pending
      in if chunk = [] then hash_obj
         else hash_chunks (hash_obj @ chunk) (drop CHUNK_SIZE pending))"
  by pat_completeness auto
termination
  by (relation "measure (\<lambda>(h, pending). length pending)") (auto simp: CHUNK_SIZE_def)

definition compute_hash :: "(bytes \<Rightarrow> string) \<Rightarrow> path \<Rightarrow> string io" where
  "compute_hash H file_path =
     io_bind (record_event (HashCall file_path)) (\<lambda>_.
     io_bind (open_rb file_path) (\<lambda>f.
       (\<lambda>w. (Inr (H (hash_chunks [] (file_bytes w f))), w))))"

text \<open>
  Lines 98-103: both files are opened, the source first; the loop then moves the source's
  bytes (as they are once the destination has been truncated) chunk by chunk.
\<close>

function copy_chunks :: "bytes \<Rightarrow> path \<Rightarrow> world \<Rightarrow> world" where
  "copy_chunks pending dst_f w =
     (let data = take CHUNK_SIZE pending
      in if data = [] then w
         else copy_chunks (drop CHUNK_SIZE pending) dst_f (file_write dst_f data w))"
  by pat_completeness auto
termination
  by (relation "measure (\<lambda>(pending, d, w). length pending)") (auto simp: CHUNK_SIZE_def)

definition copy_stream :: "path \<Rightarrow> path \<Rightarrow> unit io" where
  "copy_stream src_path dest_file =
     io_bind (open_rb src_path) (\<lambda>src_f.
     io_bind (open_wb dest_file) (\<lambda>dst_f.
       (\<lambda>w. (Inr (), copy_chunks (file_bytes w src_f) dst_f w))))"

text \<open>The log messages of lines 77, 83-86, 92-95, 97 and 105.\<close>

definition msg_skipped :: "path \<Rightarrow> string" where
  "msg_skipped src_path = ''Skipped duplicate (identical content): '' @ str_path src_path"

definition msg_renamed :: "path \<Rightarrow> path \<Rightarrow> string" where
  "msg_renamed src_path dest_file =
     ''Duplicate with different content, copying with new name: ''
     @ str_path src_path @ '' -> '' @ name dest_file"

definition msg_renamed_size :: "path \<Rightarrow> path \<Rightarrow> string" where
  "msg_renamed_size src_path dest_file =
     ''Duplicate with different content (different size), copying with new name: ''
     @ str_path src_path @ '' -> '' @ name dest_file"

definition msg_copying :: "path \<Rightarrow> path \<Rightarrow> string" where
  "msg_copying src_path dest_file =
     ''Copying file: '' @ str_path src_path @ '' -> '' @ str_path dest_file"

definition msg_error :: "path \<Rightarrow> exn \<Rightarrow> string" where
  "msg_error src_path exc = ''Error processing '' @ str_path src_path @ '': '' @ str_exn exc"

text \<open>
  Lines 70-97: the copy decision. The source has no value for it (the branches log and
  either return or fall through to the copy with \<^verbatim>\<open>dest_file\<close> rebound); the model names
  the three outcomes.
\<close>

datatype decision = Fresh path | SkipDuplicate path | RenameCopy path

definition resolve :: "(bytes \<Rightarrow> string) \<Rightarrow> path \<Rightarrow> path \<Rightarrow> decision io" where
  "resolve H src_path dest_dir =
     (let dest_file = dest_dir @ [name src_path] in
      io_bind (path_exists dest_file) (\<lambda>ex.
      if ex then
        io_bind (stat_st_size src_path) (\<lambda>src_size.
        io_bind (stat_st_size dest_file) (\<lambda>dst_size.
        if src_size = dst_size then
          io_bind (compute_hash H src_path) (\<lambda>src_hash.
          io_bind (compute_hash H dest_file) (\<lambda>dst_hash.
          if src_hash = dst_hash then
            io_bind (logging_info (msg_skipped src_path)) (\<lambda>_.
            io_return (SkipDuplicate dest_file))
          else
            (let dest_file' = dest_dir @ [new_name src_path src_hash] in
             io_bind (logging_info (msg_renamed src_path dest_file')) (\<lambda>_.
             io_return (RenameCopy dest_file')))))
        else
          io_bind (compute_hash H src_path) (\<lambda>src_hash.
          (let dest_file' = dest_dir @ [new_name src_path src_hash] in
           io_bind (logging_info (msg_renamed_size src_path dest_file')) (\<lambda>_.
           io_return (RenameCopy dest_file'))))))
      else
        io_bind (logging_info (msg_copying src_path dest_file)) (\<lambda>_.
        io_return (Fresh dest_file))))"

text \<open>Lines 65-103, the body of the \<^verbatim>\<open>try\<close>.\<close>

definition copy_file_body :: "(bytes \<Rightarrow> string) \<Rightarrow> path \<Rightarrow> path \<Rightarrow> decision io" where
  "copy_file_body H src_path dst_root =
     (let dest_dir = dst_root @ [ext_folder src_path] in
      io_bind (makedirs dest_dir) (\<lambda>_.
      io_bind (resolve H src_path dest_dir) (\<lambda>d.
      case d of
        SkipDuplicate p \<Rightarrow> io_return d
      | Fresh dest_file \<Rightarrow> io_bind (copy_stream src_path dest_file) (\<lambda>_. io_return d)
      | RenameCopy dest_file \<Rightarrow> io_bind (copy_stream src_path dest_file) (\<lambda>_. io_return d))))"

text \<open>
  Lines 61-105, \<^verbatim>\<open>copy_file_task\<close>: \<^verbatim>\<open>except (PermissionError, OSError)\<close> logs and returns.
  The result is what happened to the file: the decision carried out, or the exception caught.
  An exception of another class would propagate (\<open>Inl\<close>).
\<close>

datatype outcome = Done decision | Failed exn

definition copy_file_task :: "(bytes \<Rightarrow> string) \<Rightarrow> path \<Rightarrow> path \<Rightarrow> outcome io" where
  "copy_file_task H src_path dst_root = (\<lambda>w.
     case copy_file_body H src_path dst_root w of
       (Inr d, w') \<Rightarrow> (Inr (Done d), w')
     | (Inl exc, w') \<Rightarrow>
         if is_PermissionError exc \<or> is_OSError exc
         then io_bind (logging_error (msg_error src_path exc)) (\<lambda>_. io_return (Failed exc)) w'
         else (Inl exc, w'))"

text \<open>
  Lines 109-116: the enumeration. \<^verbatim>\<open>rglob("*")\<close> yields every entry below the source
  directory, in the order the directory entries are stored.
\<close>

definition rglob :: "path \<Rightarrow> world \<Rightarrow> path list" where
  "rglob src_path w = [p \<leftarrow> map fst (nodes w). strict_prefix src_path p]"

definition dispatch_files :: "path \<Rightarrow> path \<Rightarrow> world \<Rightarrow> path list" where
  "dispatch_files src_path dst_path w =
     (let all_files = [p \<leftarrow> rglob src_path w. is_file w p];
          files = [f \<leftarrow> all_files. dst_path \<notin> set (parents f)]
      in files)"

fun for_each :: "('a \<Rightarrow> unit io) \<Rightarrow> 'a list \<Rightarrow> unit io" where
  "for_each body [] = io_return ()"
| "for_each body (x # xs) = io_bind (body x) (\<lambda>_. for_each body xs)"

text \<open>
  Lines 109-120: validation, creation of the destination root, enumeration and the
  pre-creation of the extension directories (the set \<^verbatim>\<open>ext_dirs\<close> in order of first
  occurrence).
\<close>

definition prepare :: "path \<Rightarrow> path \<Rightarrow> path list io" where
  "prepare src dst = (\<lambda>w.
     let src_path = src; dst_path = dst in
     if \<not> is_dir w src_path then (Inl (NotADirectoryError src_path), w)
     else io_bind (path_mkdir dst_path) (\<lambda>_ w1.
            let files = dispatch_files src_path dst_path w1;
                ext_dirs = remdups (map ext_folder files)
            in io_bind (for_each (\<lambda>ext. makedirs (dst_path @ [ext])) ext_dirs)
                 (\<lambda>_. io_return files) w1) w)"

text \<open>
  \<^verbatim>\<open>asyncio.gather\<close>: every task runs; the first exception raised by a task, if any, is
  raised once all of them are done. The tasks run one after the other in dispatch order.
\<close>

fun gather :: "'a io list \<Rightarrow> 'a list io" where
  "gather [] = io_return []"
| "gather (t # ts) = (\<lambda>w.
     case t w of (r, w1) \<Rightarrow>
       (case gather ts w1 of (rs, w2) \<Rightarrow>
          (case r of
             Inl e \<Rightarrow> (Inl e, w2)
           | Inr x \<Rightarrow> (case rs of Inl e' \<Rightarrow> (Inl e', w2) | Inr xs \<Rightarrow> (Inr (x # xs), w2)))))"

text \<open>Lines 107-124, \<^verbatim>\<open>main_async\<close>.\<close>

definition main_async :: "(bytes \<Rightarrow> string) \<Rightarrow> path \<Rightarrow> path \<Rightarrow> unit io" where
  "main_async H src dst =
     io_bind (prepare src dst) (\<lambda>files.
     io_bind (gather (map (\<lambda>f. copy_file_task H f dst) files)) (\<lambda>_.
     logging_info ''Processing completed.''))"

section \<open>The copy decision as the specification words it\<close>

text \<open>
  The extension folder is the lower-cased extension without the dot, or
  \<^verbatim>\<open>no_extension\<close>; the natural destination is \<^verbatim>\<open>destRoot/<extFolder>/<name>\<close>; the rename
  target is \<^verbatim>\<open>destRoot/<extFolder>/<stem>_<first 8 hex characters of the source hash><suffix>\<close>;
  the decision is Fresh when nothing exists at the natural destination, SkipDuplicate when
  what exists there has the size and the hash of the source, RenameCopy otherwise.
\<close>

definition spec_ext_folder :: "path \<Rightarrow> string" where
  "spec_ext_folder p = (if suffix p = [] then ''no_extension'' else lower (tl (suffix p)))"

definition spec_natural :: "path \<Rightarrow> path \<Rightarrow> path" where
  "spec_natural dst_root src_path = dst_root @ [spec_ext_folder src_path, name src_path]"

definition spec_renamed :: "(bytes \<Rightarrow> string) \<Rightarrow> bytes \<Rightarrow> path \<Rightarrow> path \<Rightarrow> path" where
  "spec_renamed H s dst_root src_path =
     dst_root @ [spec_ext_folder src_path, stem src_path @ ''_'' @ take 8 (H s) @ suffix src_path]"

definition spec_decision :: "(bytes \<Rightarrow> string) \<Rightarrow> world \<Rightarrow> path \<Rightarrow> path \<Rightarrow> decision" where
  "spec_decision H w src_path dst_root =
     (let s = file_bytes w src_path; natural = spec_natural dst_root src_path
      in case node_at w natural of
           None \<Rightarrow> Fresh natural
         | Some existing \<Rightarrow>
             if length s = length (file_bytes w natural) \<and> H s = H (file_bytes w natural)
             then SkipDuplicate natural
             else RenameCopy (spec_renamed H s dst_root src_path))"

section \<open>Concrete inputs\<close>

text \<open>
  The digest function of the examples: the SHA-256 digests of the four file contents that
  occur in them.
\<close>

definition sha256_examples :: "bytes \<Rightarrow> string" where
  "sha256_examples bs =
     (if bs = ''hello''
        then ''2cf24dba5fb0a30e26e83b2ac5b9e29e1b161e5c1fa7425e73043362938b9824''
      else if bs = ''world''
        then ''486ea46224d1bb4fb680f34f7c9ad96a8f24ec88be73ea8e5a6c65260e9cb8a7''
      else if bs = ''hi''
        then ''8f434346648f6b96df89dda901c5176b10a6d83961dd3c1ac88b59b2dc327aa4''
      else if bs = ''x''
        then ''2d711642b726b04401627ca9fbac32f5c8530fb1903cc4db02258717921a4881''
      else [])"

text \<open>
  A source file \<^verbatim>\<open>/src/a.TXT\<close> ("hello") and a destination that already holds
  \<^verbatim>\<open>/dest/txt/a.TXT\<close> with other content of the same size ("world").
\<close>

definition example_world :: world where
  "example_world =
     \<lparr>nodes = [([''src''], Dir), ([''src'', ''a.TXT''], File ''hello''),
               ([''dest''], Dir), ([''dest'', ''txt''], Dir),
               ([''dest'', ''txt'', ''a.TXT''], File ''world'')],
      denied = {}, dir_st_size = 4096, logged = [], trace = []\<rparr>"

text \<open>
  The same with a destination file of identical content, with one of another size, and a
  source file without extension whose destination exists with other content.
\<close>

definition example_world_same :: world where
  "example_world_same =
     \<lparr>nodes = [([''src''], Dir), ([''src'', ''a.TXT''], File ''hello''),
               ([''dest''], Dir), ([''dest'', ''txt''], Dir),
               ([''dest'', ''txt'', ''a.TXT''], File ''hello'')],
      denied = {}, dir_st_size = 4096, logged = [], trace = []\<rparr>"

definition example_world_size :: world where
  "example_world_size =
     \<lparr>nodes = [([''src''], Dir), ([''src'', ''a.TXT''], File ''hello''),
               ([''dest''], Dir), ([''dest'', ''txt''], Dir),
               ([''dest'', ''txt'', ''a.TXT''], File ''hi'')],
      denied = {}, dir_st_size = 4096, logged = [], trace = []\<rparr>"

definition example_world_noext :: world where
  "example_world_noext =
     \<lparr>nodes = [([''src''], Dir), ([''src'', ''notes''], File ''hello''),
               ([''dest''], Dir), ([''dest'', ''no_extension''], Dir),
               ([''dest'', ''no_extension'', ''notes''], File ''world'')],
      denied = {}, dir_st_size = 4096, logged = [], trace = []\<rparr>"

text \<open>
  A source tree \<^verbatim>\<open>/s\<close> with \<^verbatim>\<open>a.txt\<close> ("hello"), \<^verbatim>\<open>sub/a.txt\<close> ("hi") and \<^verbatim>\<open>notes\<close> ("x", which
  the process may not open), and the destination \<^verbatim>\<open>/s/out\<close> nested in it, holding
  \<^verbatim>\<open>old.bin\<close>.
\<close>

definition example_tree :: world where
  "example_tree =
     \<lparr>nodes = [([''s''], Dir), ([''s'', ''a.txt''], File ''hello''),
               ([''s'', ''sub''], Dir), ([''s'', ''sub'', ''a.txt''], File ''hi''),
               ([''s'', ''notes''], File ''x''),
               ([''s'', ''out''], Dir), ([''s'', ''out'', ''old.bin''], File ''world'')],
      denied = {[''s'', ''notes'']}, dir_st_size = 4096, logged = [], trace = []\<rparr>"

section \<open>The limiter\<close>

text \<open>
  Lines 61-63 and 121-123: the tasks as the event loop interleaves them. Each task is
  \<^verbatim>\<open>async with sem:\<close> around the \<^verbatim>\<open>try\<close> statement, and all tasks share one
  \<^verbatim>\<open>asyncio.Semaphore(MAX_CONCURRENT)\<close>. Entering takes a slot when the counter is positive
  (the task waits otherwise); leaving gives the slot back, whether the body returned or
  raised. The body of a task takes effect in one step, at the moment the task leaves.
\<close>

datatype phase = Waiting | Holding | Finished outcome | Raised exn

record sched =
  sem_value :: nat
  phases :: "phase list"
  sworld :: world


inductive sched_step :: "(bytes \<Rightarrow> string) \<Rightarrow> path \<Rightarrow> path list \<Rightarrow> sched \<Rightarrow> sched \<Rightarrow> bool"
  for H :: "bytes \<Rightarrow> string" and dst :: path and files :: "path list"
where
  acquire:
    "i < length files \<Longrightarrow> i < length (phases s) \<Longrightarrow> phases s ! i = Waiting \<Longrightarrow>
     0 < sem_value s \<Longrightarrow>
     sched_step H dst files s
       (s\<lparr>sem_value := sem_value s - 1, phases := (phases s)[i := Holding]\<rparr>)"
| release_returned:
    "i < length files \<Longrightarrow> i < length (phases s) \<Longrightarrow> phases s ! i = Holding \<Longrightarrow>
     copy_file_task H (files ! i) dst (sworld s) = (Inr oc, w') \<Longrightarrow>
     sched_step H dst files s
       (s\<lparr>sem_value := sem_value s + 1, phases := (phases s)[i := Finished oc], sworld := w'\<rparr>)"
| release_raised:
    "i < length files \<Longrightarrow> i < length (phases s) \<Longrightarrow> phases s ! i = Holding \<Longrightarrow>
     copy_file_task H (files ! i) dst (sworld s) = (Inl exc, w') \<Longrightarrow>
     sched_step H dst files s
       (s\<lparr>sem_value := sem_value s + 1, phases := (phases s)[i := Raised exc], sworld := w'\<rparr>)"





text \<open>
  Proof-level relation: \<open>w'\<close> is \<open>w\<close> with new directory entries appended.
\<close>

definition dirs_added :: "world \<Rightarrow> world \<Rightarrow> bool" where
  "dirs_added w w' \<longleftrightarrow>
     (\<exists>ds. w' = w\<lparr>nodes := nodes w @ map (\<lambda>q. (q, Dir)) ds\<rparr>
           \<and> (\<forall>q\<in>set ds. node_at w q = None))"

section \<open>Properties of paths\<close>

lemma split_last_dot:
  assumes "CHR ''.'' \<in> set s"
  shows "\<exists>pre post. s = pre @ CHR ''.'' # post \<and> CHR ''.'' \<notin> set post
           \<and> rfind_dot s = int (length pre)"
proof -
  let ?P = "\<lambda>c. c \<noteq> CHR ''.''"
  let ?tw = "takeWhile ?P (rev s)"
  let ?dw = "dropWhile ?P (rev s)"
  from assms have "?dw \<noteq> []" by (simp add: dropWhile_eq_Nil_conv)
  then have ne: "?dw \<noteq> []" .
  from hd_dropWhile[OF ne] have "hd ?dw = CHR ''.''" by simp
  with ne obtain more where dw: "?dw = CHR ''.'' # more"
    by (cases ?dw) auto
  have "rev s = ?tw @ ?dw" by simp
  then have "rev s = ?tw @ CHR ''.'' # more" using dw by simp
  then have "rev (rev s) = rev (?tw @ CHR ''.'' # more)" by (rule arg_cong)
  then have s: "s = rev more @ CHR ''.'' # rev ?tw" by simp
  have nodot: "CHR ''.'' \<notin> set (rev ?tw)"
    using set_takeWhileD by fastforce
  have "length s = length more + 1 + length ?tw"
    using arg_cong[OF s, of length] by simp
  then have "rfind_dot s = int (length (rev more))"
    using assms by (simp add: rfind_dot_def)
  with s nodot show ?thesis by blast
qed

lemma suffix_cases:
  "suffix p = [] \<and> stem p = name p
   \<or> (\<exists>pre post. name p = pre @ CHR ''.'' # post \<and> pre \<noteq> [] \<and> post \<noteq> []
        \<and> CHR ''.'' \<notin> set post \<and> suffix p = CHR ''.'' # post \<and> stem p = pre)"
proof (cases "CHR ''.'' \<in> set (name p)")
  case False
  then show ?thesis by (simp add: suffix_def stem_def rfind_dot_def)
next
  case True
  from split_last_dot[OF True] obtain pre post where
    n: "name p = pre @ CHR ''.'' # post" and nd: "CHR ''.'' \<notin> set post"
    and r: "rfind_dot (name p) = int (length pre)" by blast
  show ?thesis
  proof (cases "pre \<noteq> [] \<and> post \<noteq> []")
    case True
    then have "suffix p = CHR ''.'' # post" "stem p = pre"
      using n r by (auto simp: suffix_def stem_def Let_def)
    with True n nd show ?thesis by blast
  next
    case False
    then have "suffix p = []" "stem p = name p"
      using n r by (auto simp: suffix_def stem_def Let_def)
    then show ?thesis by simp
  qed
qed

lemma stem_suffix_name: "stem p @ suffix p = name p"
  using suffix_cases[of p] by auto

lemma of_char_dot: "of_char (CHR ''.'') = (46::nat)"
  by simp

lemma of_char_lower_char:
  "isupper c \<Longrightarrow> (of_char (lower_char c) :: nat) = of_char c + 32"
  by (auto simp: lower_char_def isupper_def)

lemma lower_char_dot: "lower_char c = CHR ''.'' \<longleftrightarrow> c = CHR ''.''"
proof (cases "isupper c")
  case True
  note lc = of_char_lower_char[OF True]
  have "lower_char c \<noteq> CHR ''.''"
  proof
    assume "lower_char c = CHR ''.''"
    then have "(of_char (lower_char c) :: nat) = 46" by (simp only: of_char_dot)
    with lc True show False unfolding isupper_def by linarith
  qed
  moreover have "c \<noteq> CHR ''.''"
  proof
    assume "c = CHR ''.''"
    then have "(of_char c :: nat) = 46" by (simp only: of_char_dot)
    with True show False unfolding isupper_def by linarith
  qed
  ultimately show ?thesis by simp
next
  case False
  then have "lower_char c = c" by (simp add: lower_char_def)
  then show ?thesis by simp
qed

lemma lower_char_not_upper: "\<not> isupper (lower_char c)"
proof (cases "isupper c")
  case True
  note lc = of_char_lower_char[OF True]
  show ?thesis
  proof
    assume "isupper (lower_char c)"
    then show False using True unfolding isupper_def lc by linarith
  qed
next
  case False
  then show ?thesis by (simp add: lower_char_def)
qed

lemma lower_not_upper: "c \<in> set (lower s) \<Longrightarrow> \<not> isupper c"
  by (auto simp: lower_def lower_char_not_upper)

lemma lower_examples:
  "lower ''TXT'' = ''txt''" "lower ''Tar.GZ'' = ''tar.gz''" "lower ''mp3'' = ''mp3''"
  "lower [CHR 0xC4, CHR 0xD6, CHR 0xDE] = [CHR 0xE4, CHR 0xF6, CHR 0xFE]"
  "lower [CHR 0xD7, CHR 0xDF, CHR 0xB5, CHR 0xFF] = [CHR 0xD7, CHR 0xDF, CHR 0xB5, CHR 0xFF]"
  "ext_folder [''src'', ''a.'' @ [CHR 0xC4]] = [CHR 0xE4]"
  by code_simp+

lemma ext_folder_eq:
  "ext_folder p = (if suffix p = [] then ''no_extension'' else lower (tl (suffix p)))"
proof -
  consider "suffix p = []"
    | post where "post \<noteq> []" "CHR ''.'' \<notin> set post" "suffix p = CHR ''.'' # post"
    using suffix_cases[of p] by blast
  then show ?thesis
  proof cases
    case 1
    then show ?thesis by (simp add: ext_folder_def lower_def lstrip_dot_def)
  next
    case 2
    obtain c cs where post: "post = c # cs" using 2(1) by (cases post) auto
    then have "c \<noteq> CHR ''.''" using 2(2) by auto
    then have "lower_char c \<noteq> CHR ''.''" by (simp add: lower_char_dot)
    moreover have "lower_char (CHR ''.'') = CHR ''.''" by (simp add: lower_char_dot)
    ultimately show ?thesis using 2 post
      by (simp add: ext_folder_def lower_def lstrip_dot_def Let_def)
  qed
qed

lemma new_name_neq_name: "new_name p h \<noteq> name p"
proof
  assume "new_name p h = name p"
  then have "length (new_name p h) = length (stem p @ suffix p)"
    by (simp add: stem_suffix_name)
  then show False by (simp add: new_name_def Let_def)
qed

lemma in_parents_iff: "d \<in> set (parents f) \<longleftrightarrow> strict_prefix d f"
proof
  assume "d \<in> set (parents f)"
  then obtain n where "n < length f" "d = take n f" by (auto simp: parents_def)
  then have "prefix d f" "length d < length f" by (auto simp: take_is_prefix)
  then show "strict_prefix d f" by (auto simp: strict_prefix_def)
next
  assume "strict_prefix d f"
  then obtain zs where "f = d @ zs" "zs \<noteq> []" by (auto simp: strict_prefix_def prefix_def)
  then have "length d < length f" "d = take (length d) f" by auto
  then show "d \<in> set (parents f)" by (auto simp: parents_def intro!: image_eqI[where x="length d"])
qed

section \<open>Properties of the file operations\<close>

declare makedirs.simps [simp del]
declare path_mkdir.simps [simp del]
declare hash_chunks.simps [simp del]
declare copy_chunks.simps [simp del]

lemma CHUNK_SIZE_nonzero [simp]: "CHUNK_SIZE \<noteq> 0"
  by (simp add: CHUNK_SIZE_def)

lemma hash_chunks_eq: "hash_chunks hash_obj pending = hash_obj @ pending"
proof (induction hash_obj pending rule: hash_chunks.induct)
  case (1 hash_obj pending)
  show ?case
  proof (cases "pending = []")
    case True
    then show ?thesis by (subst hash_chunks.simps) simp
  next
    case False
    then have "hash_chunks hash_obj pending
        = hash_chunks (hash_obj @ take CHUNK_SIZE pending) (drop CHUNK_SIZE pending)"
      by (subst hash_chunks.simps) (simp add: Let_def)
    also have "\<dots> = (hash_obj @ take CHUNK_SIZE pending) @ drop CHUNK_SIZE pending"
      using 1 False by simp
    finally show ?thesis by simp
  qed
qed

lemma node_at_logged [simp]: "node_at (w\<lparr>logged := l\<rparr>) = node_at w"
  by (rule ext) (simp add: node_at_def)

lemma node_at_trace [simp]: "node_at (w\<lparr>trace := t\<rparr>) = node_at w"
  by (rule ext) (simp add: node_at_def)

lemma is_dir_logged [simp]: "is_dir (w\<lparr>logged := l\<rparr>) = is_dir w"
  by (rule ext) (simp add: is_dir_def)

lemma is_dir_trace [simp]: "is_dir (w\<lparr>trace := t\<rparr>) = is_dir w"
  by (rule ext) (simp add: is_dir_def)

lemma file_bytes_logged [simp]: "file_bytes (w\<lparr>logged := l\<rparr>) = file_bytes w"
  by (rule ext) (simp add: file_bytes_def)

lemma file_bytes_trace [simp]: "file_bytes (w\<lparr>trace := t\<rparr>) = file_bytes w"
  by (rule ext) (simp add: file_bytes_def)

lemma node_at_root [simp]: "node_at w [] = Some Dir"
  by (simp add: node_at_def)

lemma node_at_update:
  "node_at (w\<lparr>nodes := AList.update p n (nodes w)\<rparr>) q
     = (if q = [] then Some Dir else if q = p then Some n else node_at w q)"
  by (simp add: node_at_def update_conv')

lemma node_at_append_dir:
  "node_at (w\<lparr>nodes := nodes w @ [(p, Dir)]\<rparr>) q
     = (if node_at w q = None \<and> q = p then Some Dir else node_at w q)"
  by (auto simp: node_at_def map_add_def split: option.splits)

lemma copy_chunks_eq:
  "dst_f \<noteq> [] \<Longrightarrow> copy_chunks pending dst_f w
     = (if pending = [] then w
        else w\<lparr>nodes := AList.update dst_f (File (file_bytes w dst_f @ pending)) (nodes w)\<rparr>)"
proof (induction pending dst_f w rule: copy_chunks.induct)
  case (1 pending dst_f w)
  note ne = \<open>dst_f \<noteq> []\<close>
  show ?case
  proof (cases "pending = []")
    case True
    then show ?thesis by (subst copy_chunks.simps) simp
  next
    case False
    let ?data = "take CHUNK_SIZE pending"
    let ?rest = "drop CHUNK_SIZE pending"
    let ?w1 = "file_write dst_f ?data w"
    have step: "copy_chunks pending dst_f w = copy_chunks ?rest dst_f ?w1"
      using False by (subst copy_chunks.simps) (simp add: Let_def)
    have fb: "file_bytes ?w1 dst_f = file_bytes w dst_f @ ?data"
      using ne by (simp add: file_write_def file_bytes_def node_at_update)
    have ih: "copy_chunks ?rest dst_f ?w1
        = (if ?rest = [] then ?w1
           else ?w1\<lparr>nodes := AList.update dst_f (File (file_bytes ?w1 dst_f @ ?rest)) (nodes ?w1)\<rparr>)"
      using "1.IH"[OF refl _ ne] False by simp
    show ?thesis
    proof (cases "?rest = []")
      case True
      then have "?data = pending" by (metis append_Nil2 append_take_drop_id)
      with step ih True False show ?thesis by (simp add: file_write_def)
    next
      case rest: False
      have "file_bytes w dst_f @ ?data @ ?rest = file_bytes w dst_f @ pending" by simp
      with step ih rest False fb show ?thesis
        by (simp add: file_write_def del: append_take_drop_id)
    qed
  qed
qed

lemma map_of_dirs: "map_of (map (\<lambda>q. (q, Dir)) ds) q = (if q \<in> set ds then Some Dir else None)"
  by (induction ds) auto

lemma node_at_append_dirs:
  "node_at (w\<lparr>nodes := nodes w @ map (\<lambda>q. (q, Dir)) ds\<rparr>) q
     = (case node_at w q of Some n \<Rightarrow> Some n
        | None \<Rightarrow> if q \<in> set ds then Some Dir else None)"
  by (auto simp: node_at_def map_add_def map_of_dirs split: option.splits)

lemma dirs_added_refl [simp]: "dirs_added w w"
  unfolding dirs_added_def by (rule exI[of _ "[]"]) simp

lemma dirs_added_node_at:
  "dirs_added w w' \<Longrightarrow>
     node_at w' q = node_at w q \<or> (node_at w q = None \<and> node_at w' q = Some Dir)"
  unfolding dirs_added_def by (auto simp: node_at_append_dirs split: option.splits if_splits)

lemma dirs_added_Some: "dirs_added w w' \<Longrightarrow> node_at w q = Some n \<Longrightarrow> node_at w' q = Some n"
  using dirs_added_node_at[of w w' q] by auto

lemma dirs_added_None: "dirs_added w w' \<Longrightarrow> node_at w' q = None \<Longrightarrow> node_at w q = None"
  using dirs_added_node_at[of w w' q] by auto

lemma dirs_added_File:
  "dirs_added w w' \<Longrightarrow> node_at w' q = Some (File bs) \<longleftrightarrow> node_at w q = Some (File bs)"
  using dirs_added_node_at[of w w' q] by auto

lemma dirs_added_is_dir: "dirs_added w w' \<Longrightarrow> is_dir w q \<Longrightarrow> is_dir w' q"
  by (simp add: is_dir_def dirs_added_Some)

lemma dirs_added_fields:
  "dirs_added w w' \<Longrightarrow>
     denied w' = denied w \<and> dir_st_size w' = dir_st_size w
     \<and> logged w' = logged w \<and> trace w' = trace w"
  unfolding dirs_added_def by auto

lemma dirs_added_trans:
  assumes "dirs_added w w1" "dirs_added w1 w2"
  shows "dirs_added w w2"
proof -
  from assms(1) obtain ds where
    w1: "w1 = w\<lparr>nodes := nodes w @ map (\<lambda>q. (q, Dir)) ds\<rparr>"
    and ds: "\<forall>q\<in>set ds. node_at w q = None" unfolding dirs_added_def by blast
  from assms(2) obtain es where
    w2: "w2 = w1\<lparr>nodes := nodes w1 @ map (\<lambda>q. (q, Dir)) es\<rparr>"
    and es: "\<forall>q\<in>set es. node_at w1 q = None" unfolding dirs_added_def by blast
  have "\<forall>q\<in>set es. node_at w q = None"
    using es dirs_added_None[OF assms(1)] by blast
  with ds have "\<forall>q\<in>set (ds @ es). node_at w q = None" by auto
  moreover have "w2 = w\<lparr>nodes := nodes w @ map (\<lambda>q. (q, Dir)) (ds @ es)\<rparr>"
    using w1 w2 by simp
  ultimately show ?thesis unfolding dirs_added_def by blast
qed

lemma os_mkdir_dirs_added: "os_mkdir p w = (r, w') \<Longrightarrow> dirs_added w w'"
proof -
  assume a: "os_mkdir p w = (r, w')"
  show ?thesis
  proof (cases "w' = w")
    case True
    then show ?thesis by simp
  next
    case False
    with a have "w' = w\<lparr>nodes := nodes w @ map (\<lambda>q. (q, Dir)) [p]\<rparr>" "node_at w p = None"
      by (auto simp: os_mkdir_def split: if_splits option.splits node.splits)
    then show ?thesis unfolding dirs_added_def by (intro exI[of _ "[p]"]) simp
  qed
qed

lemma os_mkdir_ok: "os_mkdir p w = (Inr u, w') \<Longrightarrow> is_dir w' p"
  by (auto simp: os_mkdir_def is_dir_def node_at_append_dir split: if_splits option.splits node.splits)

lemma os_mkdir_changes: "os_mkdir p w = (r, w') \<Longrightarrow> node_at w' q \<noteq> node_at w q \<Longrightarrow> q = p"
  by (auto simp: os_mkdir_def node_at_append_dir split: if_splits option.splits node.splits)

lemma makedirs_dirs_added: "makedirs p w = (r, w') \<Longrightarrow> dirs_added w w'"
proof (induction p w arbitrary: r w' rule: makedirs.induct)
  case (1 p w)
  show ?case
  proof (cases "p \<noteq> [] \<and> node_at w (butlast p) = None")
    case True
    obtain r0 w0 where rec: "makedirs (butlast p) w = (r0, w0)" by (cases "makedirs (butlast p) w")
    from "1.IH"[OF True rec] have d0: "dirs_added w w0" .
    show ?thesis
    proof (cases "\<exists>e. r0 = Inl e \<and> \<not> is_FileExistsError e")
      case True
      then have "w' = w0" using "1.prems" rec \<open>p \<noteq> [] \<and> node_at w (butlast p) = None\<close>
        by (subst (asm) makedirs.simps) (auto split: sum.splits)
      with d0 show ?thesis by simp
    next
      case False
      obtain r2 w2 where mk: "os_mkdir p w0 = (r2, w2)" by (cases "os_mkdir p w0")
      have "w' = w2" using "1.prems" rec mk False \<open>p \<noteq> [] \<and> node_at w (butlast p) = None\<close>
        by (subst (asm) makedirs.simps) (auto split: sum.splits if_splits)
      with d0 os_mkdir_dirs_added[OF mk] show ?thesis by (auto intro: dirs_added_trans)
    qed
  next
    case False
    obtain r2 w2 where mk: "os_mkdir p w = (r2, w2)" by (cases "os_mkdir p w")
    have "w' = w2" using "1.prems" mk False
      by (subst (asm) makedirs.simps) (auto split: sum.splits if_splits)
    with os_mkdir_dirs_added[OF mk] show ?thesis by simp
  qed
qed

lemma makedirs_ok: "makedirs p w = (Inr u, w') \<Longrightarrow> is_dir w' p"
  by (subst (asm) makedirs.simps)
     (auto split: sum.splits if_splits prod.splits dest: os_mkdir_ok)

lemma makedirs_noop:
  assumes "is_dir w p" "p = [] \<or> node_at w (butlast p) \<noteq> None"
  shows "makedirs p w = (Inr (), w)"
proof -
  have "os_mkdir p w = (Inl (FileExistsError p), w) \<or> os_mkdir p w = (Inl (NotADirectoryError p), w)"
    using assms by (auto simp: os_mkdir_def is_dir_def split: option.splits node.splits)
  then show ?thesis using assms by (subst makedirs.simps) auto
qed

lemma makedirs_changes:
  "makedirs p w = (r, w') \<Longrightarrow> node_at w' q \<noteq> node_at w q \<Longrightarrow> prefix q p"
proof (induction p w arbitrary: r w' rule: makedirs.induct)
  case (1 p w)
  show ?case
  proof (cases "p \<noteq> [] \<and> node_at w (butlast p) = None")
    case True
    obtain r0 w0 where rec: "makedirs (butlast p) w = (r0, w0)" by (cases "makedirs (butlast p) w")
    have pre: "prefix (butlast p) p" by (simp add: prefix_def) (metis append_butlast_last_id True)
    have ih: "node_at w0 q \<noteq> node_at w q \<Longrightarrow> prefix q p"
      using "1.IH"[OF True rec] pre by (meson prefix_order.trans)
    show ?thesis
    proof (cases "\<exists>e. r0 = Inl e \<and> \<not> is_FileExistsError e")
      case True
      then have "w' = w0" using "1.prems"(1) rec \<open>p \<noteq> [] \<and> node_at w (butlast p) = None\<close>
        by (subst (asm) makedirs.simps) (auto split: sum.splits)
      with ih "1.prems"(2) show ?thesis by simp
    next
      case False
      obtain r2 w2 where mk: "os_mkdir p w0 = (r2, w2)" by (cases "os_mkdir p w0")
      have "w' = w2" using "1.prems"(1) rec mk False \<open>p \<noteq> [] \<and> node_at w (butlast p) = None\<close>
        by (subst (asm) makedirs.simps) (auto split: sum.splits if_splits)
      with "1.prems"(2) have "node_at w2 q \<noteq> node_at w0 q \<or> node_at w0 q \<noteq> node_at w q"
        by auto
      then show ?thesis
      proof
        assume "node_at w2 q \<noteq> node_at w0 q"
        then have "q = p" by (rule os_mkdir_changes[OF mk])
        then show ?thesis by simp
      next
        assume "node_at w0 q \<noteq> node_at w q"
        then show ?thesis by (rule ih)
      qed
    qed
  next
    case False
    obtain r2 w2 where mk: "os_mkdir p w = (r2, w2)" by (cases "os_mkdir p w")
    have "w' = w2" using "1.prems"(1) mk False
      by (subst (asm) makedirs.simps) (auto split: sum.splits if_splits)
    with "1.prems"(2) have "node_at w2 q \<noteq> node_at w q" by simp
    then have "q = p" by (rule os_mkdir_changes[OF mk])
    then show ?thesis by simp
  qed
qed

section \<open>Properties of the worker\<close>

lemmas io_defs = io_bind_def io_return_def io_raise_def logging_info_def logging_error_def
  record_event_def path_exists_def stat_st_size_def

lemma compute_hash_ok:
  "node_at w p = Some (File bs) \<Longrightarrow> p \<notin> denied w \<Longrightarrow>
     compute_hash H p w = (Inr (H bs), w\<lparr>trace := trace w @ [HashCall p]\<rparr>)"
  by (simp add: compute_hash_def io_defs open_rb_def file_bytes_def hash_chunks_eq)

lemma compute_hash_world:
  "compute_hash H p w = (r, w') \<Longrightarrow> w' = w\<lparr>trace := trace w @ [HashCall p]\<rparr>"
  by (auto simp: compute_hash_def io_defs open_rb_def split: option.splits if_splits node.splits)

lemma copy_stream_ok:
  assumes "node_at w src_path = Some (File s)" "src_path \<notin> denied w"
    and "dest_file \<noteq> []" "dest_file \<noteq> src_path" "dest_file \<notin> denied w"
    and "node_at w dest_file \<noteq> Some Dir"
    and "node_at w dest_file = None \<Longrightarrow> is_dir w (butlast dest_file)"
  shows "copy_stream src_path dest_file w =
           (Inr (), w\<lparr>nodes := AList.update dest_file (File s) (nodes w),
                       trace := trace w @ [WriteOpen dest_file (is_dir w (butlast dest_file))]\<rparr>)"
proof -
  let ?w0 = "w\<lparr>trace := trace w @ [WriteOpen dest_file (is_dir w (butlast dest_file))]\<rparr>"
  let ?w1 = "?w0\<lparr>nodes := AList.update dest_file (File []) (nodes ?w0)\<rparr>"
  have o: "open_wb dest_file w = (Inr dest_file, ?w1)"
    using assms by (cases "node_at w dest_file")
      (auto simp: open_wb_def Let_def is_dir_def split: node.splits option.splits)
  have fs: "file_bytes ?w1 src_path = s"
    using assms by (auto simp: file_bytes_def node_at_def update_conv' split: if_splits)
  have fd: "file_bytes ?w1 dest_file = []"
    using assms by (auto simp: file_bytes_def node_at_def update_conv' split: if_splits)
  have "copy_stream src_path dest_file w = (Inr (), copy_chunks s dest_file ?w1)"
    using assms o fs by (simp add: copy_stream_def io_defs open_rb_def)
  then show ?thesis using assms(3) fd
    by (cases "s = []") (simp_all add: copy_chunks_eq)
qed

lemma resolve_fresh:
  assumes "node_at w (dest_dir @ [name src_path]) = None"
  shows "resolve H src_path dest_dir w
           = (Inr (Fresh (dest_dir @ [name src_path])),
              w\<lparr>logged := logged w @ [INFO (msg_copying src_path (dest_dir @ [name src_path]))]\<rparr>)"
  using assms by (simp add: resolve_def io_defs Let_def)

lemma resolve_skip:
  assumes "node_at w src_path = Some (File s)" "src_path \<notin> denied w"
    and "node_at w (dest_dir @ [name src_path]) = Some (File d)"
    and "dest_dir @ [name src_path] \<notin> denied w"
    and "length s = length d" "H s = H d"
  shows "resolve H src_path dest_dir w
           = (Inr (SkipDuplicate (dest_dir @ [name src_path])),
              w\<lparr>logged := logged w @ [INFO (msg_skipped src_path)],
                trace := trace w @ [HashCall src_path, HashCall (dest_dir @ [name src_path])]\<rparr>)"
  using assms by (simp add: resolve_def io_defs Let_def compute_hash_ok)

lemma resolve_rename_hash:
  assumes "node_at w src_path = Some (File s)" "src_path \<notin> denied w"
    and "node_at w (dest_dir @ [name src_path]) = Some (File d)"
    and "dest_dir @ [name src_path] \<notin> denied w"
    and "length s = length d" "H s \<noteq> H d"
  shows "resolve H src_path dest_dir w
           = (Inr (RenameCopy (dest_dir @ [new_name src_path (H s)])),
              w\<lparr>logged := logged w
                  @ [INFO (msg_renamed src_path (dest_dir @ [new_name src_path (H s)]))],
                trace := trace w @ [HashCall src_path, HashCall (dest_dir @ [name src_path])]\<rparr>)"
  using assms by (simp add: resolve_def io_defs Let_def compute_hash_ok)

lemma resolve_rename_size:
  assumes "node_at w src_path = Some (File s)" "src_path \<notin> denied w"
    and "node_at w (dest_dir @ [name src_path]) = Some (File d)"
    and "length s \<noteq> length d"
  shows "resolve H src_path dest_dir w
           = (Inr (RenameCopy (dest_dir @ [new_name src_path (H s)])),
              w\<lparr>logged := logged w
                  @ [INFO (msg_renamed_size src_path (dest_dir @ [new_name src_path (H s)]))],
                trace := trace w @ [HashCall src_path]\<rparr>)"
  using assms by (simp add: resolve_def io_defs Let_def compute_hash_ok)

lemma after_makedirs:
  assumes "makedirs dd w = (Inr u, w1)"
  shows "is_dir w1 dd" "denied w1 = denied w" "trace w1 = trace w" "logged w1 = logged w"
    "dir_st_size w1 = dir_st_size w"
    "node_at w1 (dd @ [x]) = node_at w (dd @ [x])"
    "node_at w q = Some n \<Longrightarrow> node_at w1 q = Some n"
proof -
  note da = makedirs_dirs_added[OF assms]
  show "is_dir w1 dd" using assms by (rule makedirs_ok)
  show "denied w1 = denied w" "trace w1 = trace w" "logged w1 = logged w"
    "dir_st_size w1 = dir_st_size w" using dirs_added_fields[OF da] by simp_all
  show "node_at w1 (dd @ [x]) = node_at w (dd @ [x])"
    using makedirs_changes[OF assms, of "dd @ [x]"] by (auto simp: prefix_def)
  show "node_at w q = Some n \<Longrightarrow> node_at w1 q = Some n" using da by (rule dirs_added_Some)
qed

lemma task_fresh:
  assumes src: "node_at w src_path = Some (File s)" "src_path \<notin> denied w"
    and mk: "makedirs (dst_root @ [ext_folder src_path]) w = (Inr (), w1)"
    and nat: "node_at w (dst_root @ [ext_folder src_path, name src_path]) = None"
      "dst_root @ [ext_folder src_path, name src_path] \<notin> denied w"
  shows "copy_file_task H src_path dst_root w =
     (Inr (Done (Fresh (dst_root @ [ext_folder src_path, name src_path]))),
      w1\<lparr>nodes := AList.update (dst_root @ [ext_folder src_path, name src_path]) (File s) (nodes w1),
         logged := logged w
           @ [INFO (msg_copying src_path (dst_root @ [ext_folder src_path, name src_path]))],
         trace := trace w @ [WriteOpen (dst_root @ [ext_folder src_path, name src_path]) True]\<rparr>)"
proof -
  let ?dd = "dst_root @ [ext_folder src_path]"
  let ?nat = "?dd @ [name src_path]"
  let ?w2 = "w1\<lparr>logged := logged w1 @ [INFO (msg_copying src_path ?nat)]\<rparr>"
  note am = after_makedirs[OF mk]
  have n1: "node_at w1 ?nat = None" using am(6)[of "name src_path"] nat(1) by simp
  have r: "resolve H src_path ?dd w1 = (Inr (Fresh ?nat), ?w2)"
    using n1 by (rule resolve_fresh)
  have s1: "node_at w1 src_path = Some (File s)" using src(1) by (rule am(7))
  have ne: "?nat \<noteq> src_path" using s1 n1 by auto
  have c: "copy_stream src_path ?nat ?w2 =
      (Inr (), ?w2\<lparr>nodes := AList.update ?nat (File s) (nodes ?w2),
                    trace := trace ?w2 @ [WriteOpen ?nat (is_dir ?w2 (butlast ?nat))]\<rparr>)"
    by (rule copy_stream_ok) (use s1 src nat n1 ne am in \<open>simp_all add: butlast_append\<close>)
  show ?thesis
    using r c am mk by (simp add: copy_file_task_def copy_file_body_def io_defs Let_def butlast_append)
qed

lemma task_skip:
  assumes src: "node_at w src_path = Some (File s)" "src_path \<notin> denied w"
    and mk: "makedirs (dst_root @ [ext_folder src_path]) w = (Inr (), w1)"
    and nat: "node_at w (dst_root @ [ext_folder src_path, name src_path]) = Some (File d)"
      "dst_root @ [ext_folder src_path, name src_path] \<notin> denied w"
    and same: "length s = length d" "H s = H d"
  shows "copy_file_task H src_path dst_root w =
     (Inr (Done (SkipDuplicate (dst_root @ [ext_folder src_path, name src_path]))),
      w1\<lparr>logged := logged w @ [INFO (msg_skipped src_path)],
         trace := trace w @ [HashCall src_path,
                             HashCall (dst_root @ [ext_folder src_path, name src_path])]\<rparr>)"
proof -
  let ?dd = "dst_root @ [ext_folder src_path]"
  let ?nat = "?dd @ [name src_path]"
  note am = after_makedirs[OF mk]
  have n1: "node_at w1 ?nat = Some (File d)" using am(6)[of "name src_path"] nat(1) by simp
  have s1: "node_at w1 src_path = Some (File s)" using src(1) by (rule am(7))
  have r: "resolve H src_path ?dd w1 = (Inr (SkipDuplicate ?nat),
      w1\<lparr>logged := logged w1 @ [INFO (msg_skipped src_path)],
         trace := trace w1 @ [HashCall src_path, HashCall ?nat]\<rparr>)"
    by (rule resolve_skip[OF s1 _ n1 _ same]) (use src nat am in simp_all)
  show ?thesis
    using r am mk by (simp add: copy_file_task_def copy_file_body_def io_defs Let_def butlast_append)
qed

lemma task_rename_hash:
  assumes src: "node_at w src_path = Some (File s)" "src_path \<notin> denied w"
    and mk: "makedirs (dst_root @ [ext_folder src_path]) w = (Inr (), w1)"
    and nat: "node_at w (dst_root @ [ext_folder src_path, name src_path]) = Some (File d)"
      "dst_root @ [ext_folder src_path, name src_path] \<notin> denied w"
    and diff: "length s = length d" "H s \<noteq> H d"
    and tgt: "dst_root @ [ext_folder src_path, new_name src_path (H s)] \<notin> denied w"
      "node_at w (dst_root @ [ext_folder src_path, new_name src_path (H s)]) \<noteq> Some Dir"
      "dst_root @ [ext_folder src_path, new_name src_path (H s)] \<noteq> src_path"
  shows "copy_file_task H src_path dst_root w =
     (Inr (Done (RenameCopy (dst_root @ [ext_folder src_path, new_name src_path (H s)]))),
      w1\<lparr>nodes := AList.update (dst_root @ [ext_folder src_path, new_name src_path (H s)])
                  (File s) (nodes w1),
         logged := logged w
           @ [INFO (msg_renamed src_path
                      (dst_root @ [ext_folder src_path, new_name src_path (H s)]))],
         trace := trace w @ [HashCall src_path,
                             HashCall (dst_root @ [ext_folder src_path, name src_path]),
                             WriteOpen (dst_root @ [ext_folder src_path, new_name src_path (H s)])
                               True]\<rparr>)"
proof -
  let ?dd = "dst_root @ [ext_folder src_path]"
  let ?nat = "?dd @ [name src_path]"
  let ?t = "?dd @ [new_name src_path (H s)]"
  let ?w2 = "w1\<lparr>logged := logged w1 @ [INFO (msg_renamed src_path ?t)],
               trace := trace w1 @ [HashCall src_path, HashCall ?nat]\<rparr>"
  note am = after_makedirs[OF mk]
  have n1: "node_at w1 ?nat = Some (File d)" using am(6)[of "name src_path"] nat(1) by simp
  have t1: "node_at w1 ?t \<noteq> Some Dir" using am(6)[of "new_name src_path (H s)"] tgt(2) by simp
  have s1: "node_at w1 src_path = Some (File s)" using src(1) by (rule am(7))
  have r: "resolve H src_path ?dd w1 = (Inr (RenameCopy ?t), ?w2)"
    by (rule resolve_rename_hash[OF s1 _ n1 _ diff]) (use src nat am in simp_all)
  have c: "copy_stream src_path ?t ?w2 =
      (Inr (), ?w2\<lparr>nodes := AList.update ?t (File s) (nodes ?w2),
                    trace := trace ?w2 @ [WriteOpen ?t (is_dir ?w2 (butlast ?t))]\<rparr>)"
    by (rule copy_stream_ok) (use s1 src tgt t1 am in \<open>simp_all add: butlast_append\<close>)
  show ?thesis
    using r c am mk by (simp add: copy_file_task_def copy_file_body_def io_defs Let_def butlast_append)
qed

lemma task_rename_size:
  assumes src: "node_at w src_path = Some (File s)" "src_path \<notin> denied w"
    and mk: "makedirs (dst_root @ [ext_folder src_path]) w = (Inr (), w1)"
    and nat: "node_at w (dst_root @ [ext_folder src_path, name src_path]) = Some (File d)"
    and diff: "length s \<noteq> length d"
    and tgt: "dst_root @ [ext_folder src_path, new_name src_path (H s)] \<notin> denied w"
      "node_at w (dst_root @ [ext_folder src_path, new_name src_path (H s)]) \<noteq> Some Dir"
      "dst_root @ [ext_folder src_path, new_name src_path (H s)] \<noteq> src_path"
  shows "copy_file_task H src_path dst_root w =
     (Inr (Done (RenameCopy (dst_root @ [ext_folder src_path, new_name src_path (H s)]))),
      w1\<lparr>nodes := AList.update (dst_root @ [ext_folder src_path, new_name src_path (H s)])
                  (File s) (nodes w1),
         logged := logged w
           @ [INFO (msg_renamed_size src_path
                      (dst_root @ [ext_folder src_path, new_name src_path (H s)]))],
         trace := trace w @ [HashCall src_path,
                             WriteOpen (dst_root @ [ext_folder src_path, new_name src_path (H s)])
                               True]\<rparr>)"
proof -
  let ?dd = "dst_root @ [ext_folder src_path]"
  let ?nat = "?dd @ [name src_path]"
  let ?t = "?dd @ [new_name src_path (H s)]"
  let ?w2 = "w1\<lparr>logged := logged w1 @ [INFO (msg_renamed_size src_path ?t)],
               trace := trace w1 @ [HashCall src_path]\<rparr>"
  note am = after_makedirs[OF mk]
  have n1: "node_at w1 ?nat = Some (File d)" using am(6)[of "name src_path"] nat(1) by simp
  have t1: "node_at w1 ?t \<noteq> Some Dir" using am(6)[of "new_name src_path (H s)"] tgt(2) by simp
  have s1: "node_at w1 src_path = Some (File s)" using src(1) by (rule am(7))
  have r: "resolve H src_path ?dd w1 = (Inr (RenameCopy ?t), ?w2)"
    by (rule resolve_rename_size[OF s1 _ n1 diff]) (use src am in simp_all)
  have c: "copy_stream src_path ?t ?w2 =
      (Inr (), ?w2\<lparr>nodes := AList.update ?t (File s) (nodes ?w2),
                    trace := trace ?w2 @ [WriteOpen ?t (is_dir ?w2 (butlast ?t))]\<rparr>)"
    by (rule copy_stream_ok) (use s1 src tgt t1 am in \<open>simp_all add: butlast_append\<close>)
  show ?thesis
    using r c am mk by (simp add: copy_file_task_def copy_file_body_def io_defs Let_def butlast_append)
qed

section \<open>C1: the copy decision\<close>

lemma spec_ext_folder_eq: "spec_ext_folder p = ext_folder p"
  by (simp add: spec_ext_folder_def ext_folder_eq)

lemma spec_renamed_eq:
  "spec_renamed H s dst_root src_path = dst_root @ [ext_folder src_path, new_name src_path (H s)]"
  by (simp add: spec_renamed_def spec_ext_folder_eq new_name_def)

lemma spec_natural_eq:
  "spec_natural dst_root src_path = dst_root @ [ext_folder src_path, name src_path]"
  by (simp add: spec_natural_def spec_ext_folder_eq)

lemma no_extension_not_upper: "c \<in> set ''no_extension'' \<Longrightarrow> \<not> isupper c"
  by (auto simp: isupper_def)

lemma ext_folder_not_upper: "c \<in> set (ext_folder p) \<Longrightarrow> \<not> isupper c"
  using lower_not_upper[of c "tl (suffix p)"] no_extension_not_upper[of c]
  by (simp add: ext_folder_eq split: if_splits)

text \<open>
  Claim C1. For a readable source file whose extension directory can be made, the worker's
  decision is the three-way function of the destination state that the specification
  describes: the extension folder is the lower-cased extension without the dot (or
  \<^verbatim>\<open>no_extension\<close>), so no upper-case letter is left in it; nothing at
  \<^verbatim>\<open>destRoot/<extFolder>/<name>\<close> gives a fresh copy there; a file there of the same size
  and SHA-256 hash gives a skip that writes nothing; otherwise the source is copied to
  \<^verbatim>\<open>destRoot/<extFolder>/<stem>_<8 hex characters><suffix>\<close>.
  The destinations are assumed to be openable (not a directory, not denied).
\<close>

theorem copy_decision_three_way:
  assumes src: "node_at w src_path = Some (File s)" "src_path \<notin> denied w"
    and mk: "makedirs (dst_root @ [ext_folder src_path]) w = (Inr (), w1)"
    and nat: "node_at w (spec_natural dst_root src_path) \<noteq> Some Dir"
      "spec_natural dst_root src_path \<notin> denied w"
    and tgt: "node_at w (spec_renamed H s dst_root src_path) \<noteq> Some Dir"
      "spec_renamed H s dst_root src_path \<notin> denied w"
      "spec_renamed H s dst_root src_path \<noteq> src_path"
  shows "ext_folder src_path = spec_ext_folder src_path
     \<and> (\<forall>c\<in>set (ext_folder src_path). \<not> isupper c)
     \<and> fst (copy_file_task H src_path dst_root w)
         = Inr (Done (spec_decision H w src_path dst_root))
     \<and> (case spec_decision H w src_path dst_root of
           Fresh p \<Rightarrow>
             node_at (snd (copy_file_task H src_path dst_root w)) p = Some (File s)
         | SkipDuplicate p \<Rightarrow>
             nodes (snd (copy_file_task H src_path dst_root w)) = nodes w1
         | RenameCopy p \<Rightarrow>
             node_at (snd (copy_file_task H src_path dst_root w)) p = Some (File s))"
proof -
  let ?nat = "dst_root @ [ext_folder src_path, name src_path]"
  let ?t = "dst_root @ [ext_folder src_path, new_name src_path (H s)]"
  have fs: "file_bytes w src_path = s" using src(1) by (simp add: file_bytes_def)
  have nat': "node_at w ?nat \<noteq> Some Dir" "?nat \<notin> denied w"
    using nat by (simp_all add: spec_natural_eq)
  have tgt': "?t \<notin> denied w" "node_at w ?t \<noteq> Some Dir" "?t \<noteq> src_path"
    using tgt by (simp_all add: spec_renamed_eq)
  have upd: "\<And>p n w'. p \<noteq> [] \<Longrightarrow> node_at (w'\<lparr>nodes := AList.update p n (nodes w1)\<rparr>) p = Some n"
    by (simp add: node_at_def update_conv')
  consider (fresh) "node_at w ?nat = None"
    | (skip) d where "node_at w ?nat = Some (File d)" "length s = length d" "H s = H d"
    | (rename_hash) d where "node_at w ?nat = Some (File d)" "length s = length d" "H s \<noteq> H d"
    | (rename_size) d where "node_at w ?nat = Some (File d)" "length s \<noteq> length d"
    using nat'(1) by (cases "node_at w ?nat") (auto split: node.splits, metis node.exhaust)
  then have "fst (copy_file_task H src_path dst_root w)
         = Inr (Done (spec_decision H w src_path dst_root))
     \<and> (case spec_decision H w src_path dst_root of
           Fresh p \<Rightarrow>
             node_at (snd (copy_file_task H src_path dst_root w)) p = Some (File s)
         | SkipDuplicate p \<Rightarrow>
             nodes (snd (copy_file_task H src_path dst_root w)) = nodes w1
         | RenameCopy p \<Rightarrow>
             node_at (snd (copy_file_task H src_path dst_root w)) p = Some (File s))"
  proof cases
    case fresh
    have d: "spec_decision H w src_path dst_root = Fresh ?nat"
      using fresh by (simp add: spec_decision_def spec_natural_eq Let_def)
    show ?thesis
      unfolding d task_fresh[OF src mk fresh nat'(2)] by (simp add: upd)
  next
    case skip
    have d: "spec_decision H w src_path dst_root = SkipDuplicate ?nat"
      using skip fs by (simp add: spec_decision_def spec_natural_eq Let_def file_bytes_def)
    show ?thesis
      unfolding d task_skip[OF src mk skip(1) nat'(2) skip(2,3)] by simp
  next
    case rename_hash
    have d: "spec_decision H w src_path dst_root = RenameCopy ?t"
      using rename_hash fs
      by (simp add: spec_decision_def spec_natural_eq spec_renamed_eq Let_def file_bytes_def)
    show ?thesis
      unfolding d task_rename_hash[where H=H, OF src mk rename_hash(1) nat'(2) rename_hash(2,3) tgt']
      by (simp add: upd)
  next
    case rename_size
    have d: "spec_decision H w src_path dst_root = RenameCopy ?t"
      using rename_size fs
      by (simp add: spec_decision_def spec_natural_eq spec_renamed_eq Let_def file_bytes_def)
    show ?thesis
      unfolding d task_rename_size[where H=H, OF src mk rename_size tgt'] by (simp add: upd)
  qed
  then show ?thesis using ext_folder_not_upper[of _ src_path] by (simp add: spec_ext_folder_eq)
qed

lemma example_world_hyps:
  "node_at example_world [''src'', ''a.TXT''] = Some (File ''hello'')"
  "[''src'', ''a.TXT''] \<notin> denied example_world"
  "makedirs ([''dest''] @ [ext_folder [''src'', ''a.TXT'']]) example_world
     = (Inr (), example_world)"
  "node_at example_world (spec_natural [''dest''] [''src'', ''a.TXT'']) \<noteq> Some Dir"
  "spec_natural [''dest''] [''src'', ''a.TXT''] \<notin> denied example_world"
  "node_at example_world (spec_renamed sha256_examples ''hello'' [''dest''] [''src'', ''a.TXT''])
     \<noteq> Some Dir"
  "spec_renamed sha256_examples ''hello'' [''dest''] [''src'', ''a.TXT'']
     \<notin> denied example_world"
  "spec_renamed sha256_examples ''hello'' [''dest''] [''src'', ''a.TXT''] \<noteq> [''src'', ''a.TXT'']"
  by code_simp+

lemma example_world_decision:
  "spec_decision sha256_examples example_world [''src'', ''a.TXT''] [''dest'']
     = RenameCopy [''dest'', ''txt'', ''a_2cf24dba.TXT'']"
  by code_simp

theorem copy_decision_three_way_witness:
  "fst (copy_file_task sha256_examples [''src'', ''a.TXT''] [''dest''] example_world)
     = Inr (Done (RenameCopy [''dest'', ''txt'', ''a_2cf24dba.TXT'']))
   \<and> node_at (snd (copy_file_task sha256_examples [''src'', ''a.TXT''] [''dest''] example_world))
        [''dest'', ''txt'', ''a_2cf24dba.TXT''] = Some (File ''hello'')"
  using copy_decision_three_way[where H = sha256_examples, OF example_world_hyps]
  by (simp add: example_world_decision)

section \<open>Frame properties of the worker\<close>

lemma copy_chunks_fields:
  assumes "dst_f \<noteq> []"
  shows "denied (copy_chunks pending dst_f w) = denied w"
    "logged (copy_chunks pending dst_f w) = logged w"
    "trace (copy_chunks pending dst_f w) = trace w"
    "dir_st_size (copy_chunks pending dst_f w) = dir_st_size w"
    "q \<noteq> dst_f \<Longrightarrow> node_at (copy_chunks pending dst_f w) q = node_at w q"
  using assms by (auto simp: copy_chunks_eq node_at_def update_conv')

lemma open_wb_world:
  assumes "open_wb p w = (r, w')"
  shows "denied w' = denied w" "logged w' = logged w" "dir_st_size w' = dir_st_size w"
    "trace w' = trace w @ [WriteOpen p (is_dir w (butlast p))]"
    "q \<noteq> p \<Longrightarrow> node_at w' q = node_at w q"
    "r = Inr p \<or> (\<exists>e. r = Inl e \<and> nodes w' = nodes w)"
    "r = Inr p \<Longrightarrow> node_at w p \<noteq> Some Dir \<and> p \<notin> denied w
        \<and> (node_at w p = None \<longrightarrow> is_dir w (butlast p))
        \<and> nodes w' = AList.update p (File []) (nodes w)"
  using assms
  by (auto simp: open_wb_def Let_def node_at_def update_conv' is_dir_def
      split: if_splits option.splits node.splits)

lemma open_rb_world:
  assumes "open_rb p w = (r, w')"
  shows "w' = w" "r = Inr p \<or> (\<exists>e. r = Inl e)"
    "r = Inr f \<Longrightarrow> f = p \<and> p \<notin> denied w \<and> (\<exists>bs. node_at w p = Some (File bs))"
  using assms
  by (auto simp: open_rb_def split: if_splits option.splits node.splits)

lemma copy_stream_frame:
  assumes "dest_file \<noteq> []" "copy_stream src_path dest_file w = (r, w')"
  shows "denied w' = denied w" "logged w' = logged w" "dir_st_size w' = dir_st_size w"
    "trace w' = trace w \<or> trace w' = trace w @ [WriteOpen dest_file (is_dir w (butlast dest_file))]"
    "q \<noteq> dest_file \<Longrightarrow> node_at w' q = node_at w q"
proof -
  obtain r1 w1 where o1: "open_rb src_path w = (r1, w1)" by (cases "open_rb src_path w")
  note rb = open_rb_world[OF o1]
  show "denied w' = denied w" "logged w' = logged w" "dir_st_size w' = dir_st_size w"
    "trace w' = trace w \<or> trace w' = trace w @ [WriteOpen dest_file (is_dir w (butlast dest_file))]"
    "q \<noteq> dest_file \<Longrightarrow> node_at w' q = node_at w q"
  proof -
    consider (fail1) e where "r1 = Inl e" | (ok1) "r1 = Inr src_path" using rb(2) by blast
    then have "denied w' = denied w \<and> logged w' = logged w \<and> dir_st_size w' = dir_st_size w
      \<and> (trace w' = trace w \<or> trace w' = trace w @ [WriteOpen dest_file (is_dir w (butlast dest_file))])
      \<and> (q \<noteq> dest_file \<longrightarrow> node_at w' q = node_at w q)"
    proof cases
      case fail1
      then have "w' = w" using assms(2) o1 rb(1) by (simp add: copy_stream_def io_bind_def)
      then show ?thesis by simp
    next
      case ok1
      obtain r2 w2 where o2: "open_wb dest_file w = (r2, w2)" by (cases "open_wb dest_file w")
      note wb = open_wb_world[OF o2]
      show ?thesis
      proof (cases r2)
        case (Inl e)
        then have "w' = w2" using assms(2) o1 o2 ok1 rb(1) by (simp add: copy_stream_def io_bind_def)
        then show ?thesis using wb by simp
      next
        case (Inr f)
        then have "f = dest_file" using wb(6) by auto
        with Inr have "w' = copy_chunks (file_bytes w2 src_path) dest_file w2"
          using assms(2) o1 o2 ok1 rb(1) by (auto simp: copy_stream_def io_bind_def)
        then show ?thesis using wb copy_chunks_fields[OF assms(1)] by simp
      qed
    qed
    then show "denied w' = denied w" "logged w' = logged w" "dir_st_size w' = dir_st_size w"
      "trace w' = trace w \<or> trace w' = trace w @ [WriteOpen dest_file (is_dir w (butlast dest_file))]"
      "q \<noteq> dest_file \<Longrightarrow> node_at w' q = node_at w q" by simp_all
  qed
qed

lemma is_OSError_all [simp]: "is_OSError e"
  by (cases e) simp_all

lemma compute_hash_cases:
  "(\<exists>e. compute_hash H p w = (Inl e, w\<lparr>trace := trace w @ [HashCall p]\<rparr>))
   \<or> (\<exists>bs. node_at w p = Some (File bs) \<and> p \<notin> denied w
         \<and> compute_hash H p w = (Inr (H bs), w\<lparr>trace := trace w @ [HashCall p]\<rparr>))"
  by (auto simp: compute_hash_def io_defs open_rb_def file_bytes_def hash_chunks_eq
      split: option.splits node.splits)

lemma resolve_frame:
  assumes "resolve H src_path dest_dir w = (r, w')"
  shows "nodes w' = nodes w" "denied w' = denied w" "dir_st_size w' = dir_st_size w"
    "\<exists>evs. trace w' = trace w @ evs
        \<and> set evs \<subseteq> {HashCall src_path, HashCall (dest_dir @ [name src_path])}"
    "\<exists>ls. logged w' = logged w @ ls"
    "r = Inr d \<Longrightarrow> \<exists>x. d = Fresh (dest_dir @ [x]) \<or> d = SkipDuplicate (dest_dir @ [x])
        \<or> d = RenameCopy (dest_dir @ [x])"
proof -
  let ?nat = "dest_dir @ [name src_path]"
  have "nodes w' = nodes w \<and> denied w' = denied w \<and> dir_st_size w' = dir_st_size w
    \<and> (\<exists>evs. trace w' = trace w @ evs \<and> set evs \<subseteq> {HashCall src_path, HashCall ?nat})
    \<and> (\<exists>ls. logged w' = logged w @ ls)
    \<and> (r = Inr d \<longrightarrow> (\<exists>x. d = Fresh (dest_dir @ [x]) \<or> d = SkipDuplicate (dest_dir @ [x])
        \<or> d = RenameCopy (dest_dir @ [x])))"
  proof (cases "node_at w ?nat = None")
    case True
    then show ?thesis using assms by (auto simp: resolve_def io_defs Let_def)
  next
    case False
    let ?w1 = "w\<lparr>trace := trace w @ [HashCall src_path]\<rparr>"
    show ?thesis
    proof (cases "\<exists>a b. stat_st_size src_path w = (Inr a, w) \<and> stat_st_size ?nat w = (Inr b, w)")
      case stat: False
      then show ?thesis using assms False
        by (auto simp: resolve_def io_defs Let_def split: option.splits node.splits)
    next
      case stat: True
      then obtain a b where ab: "stat_st_size src_path w = (Inr a, w)"
        "stat_st_size ?nat w = (Inr b, w)" by blast
      from compute_hash_cases[of H src_path w] show ?thesis
      proof (elim disjE exE conjE)
        fix e assume c: "compute_hash H src_path w = (Inl e, ?w1)"
        then show ?thesis using assms False ab
          by (auto simp: resolve_def io_bind_def io_return_def path_exists_def Let_def
              split: if_splits)
      next
        fix bs assume c: "compute_hash H src_path w = (Inr (H bs), ?w1)"
        show ?thesis
        proof (cases "a = b")
          case False
          then show ?thesis using assms \<open>node_at w ?nat \<noteq> None\<close> ab c
            by (auto simp: resolve_def io_bind_def io_return_def path_exists_def Let_def
                logging_info_def split: if_splits)
        next
          case True
          from compute_hash_cases[of H ?nat ?w1] show ?thesis
          proof (elim disjE exE conjE)
            fix e assume "compute_hash H ?nat ?w1 = (Inl e, ?w1\<lparr>trace := trace ?w1 @ [HashCall ?nat]\<rparr>)"
            then show ?thesis using assms \<open>node_at w ?nat \<noteq> None\<close> ab c True
              by (auto simp: resolve_def io_bind_def io_return_def path_exists_def Let_def
                  split: if_splits)
          next
            fix ds assume "compute_hash H ?nat ?w1 = (Inr (H ds), ?w1\<lparr>trace := trace ?w1 @ [HashCall ?nat]\<rparr>)"
            then show ?thesis using assms \<open>node_at w ?nat \<noteq> None\<close> ab c True
              by (auto simp: resolve_def io_bind_def io_return_def path_exists_def Let_def
                  logging_info_def split: if_splits)
          qed
        qed
      qed
    qed
  qed
  then show "nodes w' = nodes w" "denied w' = denied w" "dir_st_size w' = dir_st_size w"
    "\<exists>evs. trace w' = trace w @ evs
        \<and> set evs \<subseteq> {HashCall src_path, HashCall (dest_dir @ [name src_path])}"
    "\<exists>ls. logged w' = logged w @ ls"
    "r = Inr d \<Longrightarrow> \<exists>x. d = Fresh (dest_dir @ [x]) \<or> d = SkipDuplicate (dest_dir @ [x])
        \<or> d = RenameCopy (dest_dir @ [x])" by blast+
qed

lemma copy_stream_dest:
  assumes "dest_file \<noteq> []" "copy_stream src_path dest_file w = (r, w')"
  shows "node_at w' dest_file = node_at w dest_file
     \<or> (\<exists>bs. node_at w' dest_file = Some (File bs) \<and> node_at w dest_file \<noteq> Some Dir)"
proof -
  obtain r1 w1 where o1: "open_rb src_path w = (r1, w1)" by (cases "open_rb src_path w")
  note rb = open_rb_world[OF o1]
  obtain r2 w2 where o2: "open_wb dest_file w = (r2, w2)" by (cases "open_wb dest_file w")
  note wb = open_wb_world[OF o2]
  consider (fail1) e where "r1 = Inl e" | (fail2) e where "r1 = Inr src_path" "r2 = Inl e"
    | (ok) "r1 = Inr src_path" "r2 = Inr dest_file"
    using rb(2) wb(6) by blast
  then show ?thesis
  proof cases
    case fail1
    then have "w' = w" using assms(2) o1 rb(1) by (simp add: copy_stream_def io_bind_def)
    then show ?thesis by simp
  next
    case fail2
    then have "w' = w2" using assms(2) o1 o2 rb(1) by (simp add: copy_stream_def io_bind_def)
    moreover have "nodes w2 = nodes w" using wb(6) fail2 by auto
    ultimately show ?thesis by (simp add: node_at_def)
  next
    case ok
    then have w': "w' = copy_chunks (file_bytes w2 src_path) dest_file w2"
      using assms(2) o1 o2 rb(1) by (auto simp: copy_stream_def io_bind_def)
    have "node_at w2 dest_file = Some (File [])"
      using wb(7)[OF ok(2)] assms(1) by (simp add: node_at_def update_conv')
    then have "\<exists>bs. node_at w' dest_file = Some (File bs)"
      unfolding w' using assms(1) by (simp add: copy_chunks_eq node_at_def update_conv')
    then show ?thesis using wb(7)[OF ok(2)] by blast
  qed
qed

lemma task_never_raises: "\<exists>oc w'. copy_file_task H src_path dst_root w = (Inr oc, w')"
  by (auto simp: copy_file_task_def io_defs split: prod.splits sum.splits)

lemma task_frame:
  assumes t: "copy_file_task H src_path dst_root w = (r, w')"
  shows "denied w' = denied w \<and> dir_st_size w' = dir_st_size w
    \<and> (\<exists>evs. trace w' = trace w @ evs
          \<and> (\<forall>p b. WriteOpen p b \<in> set evs \<longrightarrow> b \<and> butlast p = dst_root @ [ext_folder src_path])
          \<and> (\<forall>p. HashCall p \<in> set evs \<longrightarrow>
                p = src_path \<or> p = dst_root @ [ext_folder src_path, name src_path]))
    \<and> (\<exists>ls. logged w' = logged w @ ls)
    \<and> (\<forall>q. node_at w' q \<noteq> node_at w q \<longrightarrow>
          (prefix q (dst_root @ [ext_folder src_path]) \<and> node_at w q = None
             \<and> node_at w' q = Some Dir)
          \<or> (\<exists>x bs. q = dst_root @ [ext_folder src_path, x] \<and> node_at w' q = Some (File bs)
                \<and> node_at w q \<noteq> Some Dir))"
    (is "?P w'")
proof -
  let ?dd = "dst_root @ [ext_folder src_path]"
  obtain r0 w1 where mk: "makedirs ?dd w = (r0, w1)" by (cases "makedirs ?dd w")
  note da = makedirs_dirs_added[OF mk]
  note f1 = dirs_added_fields[OF da]
  have n1: "\<And>q. node_at w1 q \<noteq> node_at w q \<Longrightarrow>
      prefix q ?dd \<and> node_at w q = None \<and> node_at w1 q = Some Dir"
    using makedirs_changes[OF mk] dirs_added_node_at[OF da] by metis
  have P1: "?P w1" using f1 n1 by auto
  have Plog: "\<And>v m. ?P v \<Longrightarrow> ?P (v\<lparr>logged := logged v @ [m]\<rparr>)"
    by (elim conjE exE) (simp, blast)
  show ?thesis
  proof (cases r0)
    case (Inl e)
    then have "w' = w1\<lparr>logged := logged w1 @ [ERROR (msg_error src_path e)]\<rparr>"
      using t mk by (simp add: copy_file_task_def copy_file_body_def io_defs Let_def)
    then show ?thesis using Plog[OF P1] by simp
  next
    case (Inr u)
    have dir1: "is_dir w1 ?dd" using mk Inr makedirs_ok by blast
    obtain r1 w2 where rs: "resolve H src_path ?dd w1 = (r1, w2)"
      by (cases "resolve H src_path ?dd w1")
    note rf = resolve_frame[OF rs]
    have na2: "node_at w2 = node_at w1" using rf(1) by (auto simp: node_at_def)
    have P2: "?P w2"
    proof -
      from rf(4) obtain evs where evs: "trace w2 = trace w1 @ evs"
        "set evs \<subseteq> {HashCall src_path, HashCall (?dd @ [name src_path])}" by blast
      from rf(5) obtain ls where ls: "logged w2 = logged w1 @ ls" by blast
      have "\<forall>p b. WriteOpen p b \<notin> set evs" using evs(2) by auto
      moreover have "\<forall>p. HashCall p \<in> set evs \<longrightarrow> p = src_path \<or> p = ?dd @ [name src_path]"
        using evs(2) by auto
      ultimately show ?thesis using rf(2,3) f1 evs(1) ls n1 na2 by auto
    qed
    show ?thesis
    proof (cases r1)
      case (Inl e)
      then have "w' = w2\<lparr>logged := logged w2 @ [ERROR (msg_error src_path e)]\<rparr>"
        using t mk rs \<open>r0 = Inr u\<close>
        by (simp add: copy_file_task_def copy_file_body_def io_defs Let_def)
      then show ?thesis using Plog[OF P2] by simp
    next
      case d: (Inr d)
      from rf(6)[OF d] obtain x where x: "d = Fresh (?dd @ [x]) \<or> d = SkipDuplicate (?dd @ [x])
        \<or> d = RenameCopy (?dd @ [x])" by blast
      show ?thesis
      proof (cases "d = SkipDuplicate (?dd @ [x])")
        case True
        then have "w' = w2" using t mk rs \<open>r0 = Inr u\<close> d
          by (simp add: copy_file_task_def copy_file_body_def io_defs Let_def)
        then show ?thesis using P2 by simp
      next
        case False
        let ?t = "?dd @ [x]"
        obtain r3 w3 where cs: "copy_stream src_path ?t w2 = (r3, w3)"
          by (cases "copy_stream src_path ?t w2")
        have tne: "?t \<noteq> []" by simp
        note cf = copy_stream_frame[OF tne cs]
        note cd = copy_stream_dest[OF tne cs]
        have flag: "is_dir w2 (butlast ?t)" using dir1 na2 by (simp add: is_dir_def butlast_append)
        have tnp: "\<not> prefix ?t ?dd" by (auto simp: prefix_def)
        have nt: "node_at w2 ?t = node_at w ?t" using n1[of ?t] tnp na2 by auto
        have P3: "?P w3"
        proof -
          from P2 obtain evs ls where e2: "trace w2 = trace w @ evs"
            "\<forall>p b. WriteOpen p b \<in> set evs \<longrightarrow> b \<and> butlast p = ?dd"
            "\<forall>p. HashCall p \<in> set evs \<longrightarrow> p = src_path \<or> p = ?dd @ [name src_path]"
            and l2: "logged w2 = logged w @ ls"
            and fields: "denied w2 = denied w" "dir_st_size w2 = dir_st_size w"
            by auto
          have nodes3: "\<forall>q. node_at w3 q \<noteq> node_at w q \<longrightarrow>
              (prefix q ?dd \<and> node_at w q = None \<and> node_at w3 q = Some Dir)
              \<or> (\<exists>x bs. q = dst_root @ [ext_folder src_path, x] \<and> node_at w3 q = Some (File bs)
                    \<and> node_at w q \<noteq> Some Dir)"
          proof (intro allI impI)
            fix q assume ch: "node_at w3 q \<noteq> node_at w q"
            show "(prefix q ?dd \<and> node_at w q = None \<and> node_at w3 q = Some Dir)
              \<or> (\<exists>x bs. q = dst_root @ [ext_folder src_path, x] \<and> node_at w3 q = Some (File bs)
                    \<and> node_at w q \<noteq> Some Dir)"
            proof (cases "q = ?t")
              case True
              then have "\<exists>bs. node_at w3 q = Some (File bs) \<and> node_at w q \<noteq> Some Dir"
                using cd nt ch by auto
              then show ?thesis using True by auto
            next
              case False
              then have "node_at w3 q = node_at w1 q" using cf(5)[of q] na2 by simp
              then show ?thesis using n1[of q] ch by auto
            qed
          qed
          from cf(4) have "\<exists>evs'. trace w3 = trace w @ evs'
              \<and> (\<forall>p b. WriteOpen p b \<in> set evs' \<longrightarrow> b \<and> butlast p = ?dd)
              \<and> (\<forall>p. HashCall p \<in> set evs' \<longrightarrow> p = src_path \<or> p = ?dd @ [name src_path])"
          proof
            assume "trace w3 = trace w2"
            then show ?thesis using e2 by auto
          next
            assume "trace w3 = trace w2 @ [WriteOpen ?t (is_dir w2 (butlast ?t))]"
            then have "trace w3 = trace w @ (evs @ [WriteOpen ?t True])" using e2(1) flag by simp
            moreover have "\<forall>p b. WriteOpen p b \<in> set (evs @ [WriteOpen ?t True])
                \<longrightarrow> b \<and> butlast p = ?dd" using e2(2) by (auto simp: butlast_append)
            moreover have "\<forall>p. HashCall p \<in> set (evs @ [WriteOpen ?t True])
                \<longrightarrow> p = src_path \<or> p = ?dd @ [name src_path]" using e2(3) by auto
            ultimately show ?thesis by blast
          qed
          then show ?thesis using cf(1,2,3) fields l2 nodes3 by auto
        qed
        have "w' = w3 \<or> (\<exists>e. w' = w3\<lparr>logged := logged w3 @ [ERROR (msg_error src_path e)]\<rparr>)"
          using t mk rs cs \<open>r0 = Inr u\<close> d x False
          by (cases r3) (auto simp: copy_file_task_def copy_file_body_def io_defs Let_def)
        then show ?thesis
        proof (elim disjE exE)
          assume "w' = w3"
          then show ?thesis using P3 by simp
        next
          fix e assume "w' = w3\<lparr>logged := logged w3 @ [ERROR (msg_error src_path e)]\<rparr>"
          then show ?thesis using Plog[OF P3] by simp
        qed
      qed
    qed
  qed
qed

section \<open>C10: files without extension\<close>

text \<open>
  Claim C10. A source file without suffix whose natural destination
  \<^verbatim>\<open>destRoot/no_extension/<name>\<close> exists with other content (another size or another hash) is
  copied to \<^verbatim>\<open>destRoot/no_extension/<name>_<first 8 hex characters of the source hash>\<close>: no
  dot and no extension are appended, and the worker does not fail.
\<close>

theorem no_extension_rename_target:
  assumes src: "node_at w src_path = Some (File s)" "src_path \<notin> denied w"
    and nosuf: "suffix src_path = []"
    and mk: "makedirs (dst_root @ [''no_extension'']) w = (Inr (), w1)"
    and nat: "node_at w (dst_root @ [''no_extension'', name src_path]) = Some (File d)"
      "dst_root @ [''no_extension'', name src_path] \<notin> denied w"
    and differs: "length s \<noteq> length d \<or> H s \<noteq> H d"
    and tgt: "dst_root @ [''no_extension'', name src_path @ ''_'' @ take 8 (H s)] \<notin> denied w"
      "node_at w (dst_root @ [''no_extension'', name src_path @ ''_'' @ take 8 (H s)]) \<noteq> Some Dir"
      "dst_root @ [''no_extension'', name src_path @ ''_'' @ take 8 (H s)] \<noteq> src_path"
  shows "fst (copy_file_task H src_path dst_root w)
           = Inr (Done (RenameCopy
                (dst_root @ [''no_extension'', name src_path @ ''_'' @ take 8 (H s)])))
     \<and> node_at (snd (copy_file_task H src_path dst_root w))
          (dst_root @ [''no_extension'', name src_path @ ''_'' @ take 8 (H s)]) = Some (File s)"
proof -
  have ef: "ext_folder src_path = ''no_extension''" using nosuf by (simp add: ext_folder_eq)
  have st: "stem src_path = name src_path" using nosuf suffix_cases[of src_path] by auto
  have nn: "new_name src_path (H s) = name src_path @ ''_'' @ take 8 (H s)"
    using nosuf st by (simp add: new_name_def)
  let ?t = "dst_root @ [''no_extension'', name src_path @ ''_'' @ take 8 (H s)]"
  have upd: "\<And>w'. node_at (w'\<lparr>nodes := AList.update ?t (File s) (nodes w1)\<rparr>) ?t = Some (File s)"
    by (simp add: node_at_def update_conv')
  show ?thesis
  proof (cases "length s = length d")
    case True
    with differs have h: "H s \<noteq> H d" by simp
    show ?thesis
      using task_rename_hash[where H=H and src_path=src_path and dst_root=dst_root, OF src(1,2) _ _ _ True h]
        mk nat tgt upd by (simp add: ef nn)
  next
    case False
    show ?thesis
      using task_rename_size[where H=H and src_path=src_path and dst_root=dst_root, OF src(1,2) _ _ False]
        mk nat tgt upd by (simp add: ef nn)
  qed
qed

lemma example_world_noext_hyps:
  "node_at example_world_noext [''src'', ''notes''] = Some (File ''hello'')"
  "[''src'', ''notes''] \<notin> denied example_world_noext"
  "suffix [''src'', ''notes''] = []"
  "makedirs ([''dest''] @ [''no_extension'']) example_world_noext = (Inr (), example_world_noext)"
  "node_at example_world_noext ([''dest''] @ [''no_extension'', name [''src'', ''notes'']])
     = Some (File ''world'')"
  "[''dest''] @ [''no_extension'', name [''src'', ''notes'']] \<notin> denied example_world_noext"
  "length ''hello'' \<noteq> length ''world'' \<or> sha256_examples ''hello'' \<noteq> sha256_examples ''world''"
  "[''dest''] @ [''no_extension'', name [''src'', ''notes''] @ ''_'' @ take 8 (sha256_examples ''hello'')]
     \<notin> denied example_world_noext"
  "node_at example_world_noext
     ([''dest''] @ [''no_extension'', name [''src'', ''notes''] @ ''_'' @ take 8 (sha256_examples ''hello'')])
     \<noteq> Some Dir"
  "[''dest''] @ [''no_extension'', name [''src'', ''notes''] @ ''_'' @ take 8 (sha256_examples ''hello'')]
     \<noteq> [''src'', ''notes'']"
  by code_simp+

lemma example_noext_target:
  "[''dest''] @ [''no_extension'', name [''src'', ''notes''] @ ''_'' @ take 8 (sha256_examples ''hello'')]
     = [''dest'', ''no_extension'', ''notes_2cf24dba'']"
  by code_simp

theorem no_extension_rename_target_witness:
  "fst (copy_file_task sha256_examples [''src'', ''notes''] [''dest''] example_world_noext)
     = Inr (Done (RenameCopy [''dest'', ''no_extension'', ''notes_2cf24dba'']))
   \<and> node_at (snd (copy_file_task sha256_examples [''src'', ''notes''] [''dest'']
                     example_world_noext))
        [''dest'', ''no_extension'', ''notes_2cf24dba''] = Some (File ''hello'')"
  using no_extension_rename_target[where H = sha256_examples, OF example_world_noext_hyps]
  unfolding example_noext_target .

section \<open>C8: what the worker leaves untouched\<close>

text \<open>
  Claim C8. When the destination file has the size and the hash of the source, the worker
  writes nothing: no entry is created and no content changes. When it has the size but not the
  hash, the source's bytes are written under the suffixed name only: the destination file at
  the natural path, and every other path, is as before.
\<close>

theorem equal_size_leaves_destination_untouched:
  assumes src: "node_at w src_path = Some (File s)" "src_path \<notin> denied w"
    and nat: "node_at w (dst_root @ [ext_folder src_path, name src_path]) = Some (File d)"
      "dst_root @ [ext_folder src_path, name src_path] \<notin> denied w"
    and dir: "is_dir w (dst_root @ [ext_folder src_path])" "node_at w dst_root \<noteq> None"
    and size: "length s = length d"
  shows "(H s = H d \<longrightarrow>
            fst (copy_file_task H src_path dst_root w)
              = Inr (Done (SkipDuplicate (dst_root @ [ext_folder src_path, name src_path])))
          \<and> nodes (snd (copy_file_task H src_path dst_root w)) = nodes w)
     \<and> (H s \<noteq> H d
          \<and> dst_root @ [ext_folder src_path, new_name src_path (H s)] \<notin> denied w
          \<and> node_at w (dst_root @ [ext_folder src_path, new_name src_path (H s)]) \<noteq> Some Dir
          \<and> dst_root @ [ext_folder src_path, new_name src_path (H s)] \<noteq> src_path \<longrightarrow>
            fst (copy_file_task H src_path dst_root w)
              = Inr (Done (RenameCopy (dst_root @ [ext_folder src_path, new_name src_path (H s)])))
          \<and> node_at (snd (copy_file_task H src_path dst_root w))
                (dst_root @ [ext_folder src_path, name src_path]) = Some (File d)
          \<and> node_at (snd (copy_file_task H src_path dst_root w))
                (dst_root @ [ext_folder src_path, new_name src_path (H s)]) = Some (File s)
          \<and> (\<forall>q. q \<noteq> dst_root @ [ext_folder src_path, new_name src_path (H s)] \<longrightarrow>
                node_at (snd (copy_file_task H src_path dst_root w)) q = node_at w q))"
proof -
  let ?dd = "dst_root @ [ext_folder src_path]"
  let ?t = "dst_root @ [ext_folder src_path, new_name src_path (H s)]"
  have mk: "makedirs ?dd w = (Inr (), w)"
    using dir by (intro makedirs_noop) (simp_all add: butlast_append)
  have skip: "H s = H d \<Longrightarrow>
      fst (copy_file_task H src_path dst_root w)
        = Inr (Done (SkipDuplicate (dst_root @ [ext_folder src_path, name src_path])))
      \<and> nodes (snd (copy_file_task H src_path dst_root w)) = nodes w"
    using task_skip[where H=H, OF src mk nat size] by simp
  have ren: "fst (copy_file_task H src_path dst_root w) = Inr (Done (RenameCopy ?t))
      \<and> node_at (snd (copy_file_task H src_path dst_root w))
            (dst_root @ [ext_folder src_path, name src_path]) = Some (File d)
      \<and> node_at (snd (copy_file_task H src_path dst_root w)) ?t = Some (File s)
      \<and> (\<forall>q. q \<noteq> ?t \<longrightarrow> node_at (snd (copy_file_task H src_path dst_root w)) q = node_at w q)"
    if h: "H s \<noteq> H d" and tg: "?t \<notin> denied w" "node_at w ?t \<noteq> Some Dir" "?t \<noteq> src_path"
  proof -
    note r = task_rename_hash[where H=H, OF src mk nat size h tg]
    have ne: "dst_root @ [ext_folder src_path, name src_path] \<noteq> ?t"
      using new_name_neq_name[of src_path "H s"] by auto
    have others: "\<And>q. q \<noteq> ?t \<Longrightarrow>
        node_at (snd (copy_file_task H src_path dst_root w)) q = node_at w q"
      unfolding r by (simp add: node_at_def update_conv')
    have "node_at (snd (copy_file_task H src_path dst_root w)) ?t = Some (File s)"
      unfolding r by (simp add: node_at_def update_conv')
    then show ?thesis using r others[OF ne] others nat(1) by simp
  qed
  show ?thesis using skip ren by blast
qed

lemma example_same_hyps:
  "node_at example_world_same [''src'', ''a.TXT''] = Some (File ''hello'')"
  "[''src'', ''a.TXT''] \<notin> denied example_world_same"
  "node_at example_world_same ([''dest''] @ [ext_folder [''src'', ''a.TXT''], name [''src'', ''a.TXT'']])
     = Some (File ''hello'')"
  "[''dest''] @ [ext_folder [''src'', ''a.TXT''], name [''src'', ''a.TXT'']]
     \<notin> denied example_world_same"
  "is_dir example_world_same ([''dest''] @ [ext_folder [''src'', ''a.TXT'']])"
  "node_at example_world_same [''dest''] \<noteq> None"
  "length ''hello'' = length ''hello''"
  by code_simp+

lemma example_hash_hyps:
  "node_at example_world [''src'', ''a.TXT''] = Some (File ''hello'')"
  "[''src'', ''a.TXT''] \<notin> denied example_world"
  "node_at example_world ([''dest''] @ [ext_folder [''src'', ''a.TXT''], name [''src'', ''a.TXT'']])
     = Some (File ''world'')"
  "[''dest''] @ [ext_folder [''src'', ''a.TXT''], name [''src'', ''a.TXT'']]
     \<notin> denied example_world"
  "is_dir example_world ([''dest''] @ [ext_folder [''src'', ''a.TXT'']])"
  "node_at example_world [''dest''] \<noteq> None"
  "length ''hello'' = length ''world''"
  by code_simp+

lemma example_hash_target:
  "sha256_examples ''hello'' \<noteq> sha256_examples ''world''"
  "[''dest''] @ [ext_folder [''src'', ''a.TXT''],
      new_name [''src'', ''a.TXT''] (sha256_examples ''hello'')] \<notin> denied example_world"
  "node_at example_world ([''dest''] @ [ext_folder [''src'', ''a.TXT''],
      new_name [''src'', ''a.TXT''] (sha256_examples ''hello'')]) \<noteq> Some Dir"
  "[''dest''] @ [ext_folder [''src'', ''a.TXT''],
      new_name [''src'', ''a.TXT''] (sha256_examples ''hello'')] \<noteq> [''src'', ''a.TXT'']"
  by code_simp+

lemma example_paths:
  "[''dest''] @ [ext_folder [''src'', ''a.TXT''], name [''src'', ''a.TXT'']]
     = [''dest'', ''txt'', ''a.TXT'']"
  "[''dest''] @ [ext_folder [''src'', ''a.TXT''],
      new_name [''src'', ''a.TXT''] (sha256_examples ''hello'')]
     = [''dest'', ''txt'', ''a_2cf24dba.TXT'']"
  by code_simp+

theorem equal_size_leaves_destination_untouched_witness:
  "(fst (copy_file_task sha256_examples [''src'', ''a.TXT''] [''dest''] example_world_same)
      = Inr (Done (SkipDuplicate [''dest'', ''txt'', ''a.TXT'']))
    \<and> nodes (snd (copy_file_task sha256_examples [''src'', ''a.TXT''] [''dest''] example_world_same))
      = nodes example_world_same)
   \<and> (fst (copy_file_task sha256_examples [''src'', ''a.TXT''] [''dest''] example_world)
      = Inr (Done (RenameCopy [''dest'', ''txt'', ''a_2cf24dba.TXT'']))
    \<and> node_at (snd (copy_file_task sha256_examples [''src'', ''a.TXT''] [''dest''] example_world))
        [''dest'', ''txt'', ''a.TXT''] = Some (File ''world'')
    \<and> node_at (snd (copy_file_task sha256_examples [''src'', ''a.TXT''] [''dest''] example_world))
        [''dest'', ''txt'', ''a_2cf24dba.TXT''] = Some (File ''hello''))"
  using equal_size_leaves_destination_untouched[where H = sha256_examples, OF example_same_hyps]
    equal_size_leaves_destination_untouched[where H = sha256_examples, OF example_hash_hyps]
    example_hash_target
  unfolding example_paths by simp

section \<open>C4: a size mismatch needs no hash of the destination\<close>

lemma resolve_size_branch:
  assumes "node_at w src_path = Some (File s)"
    and "node_at w (dest_dir @ [name src_path]) = Some (File d)"
    and "length s \<noteq> length d"
    and "resolve H src_path dest_dir w = (r, w')"
  shows "trace w' = trace w @ [HashCall src_path]"
  using compute_hash_cases[of H src_path w] assms
  by (auto simp: resolve_def io_bind_def io_return_def path_exists_def stat_st_size_def
      logging_info_def Let_def)

lemma size_branch_events:
  assumes src: "node_at w src_path = Some (File s)"
    and nat: "node_at w (dst_root @ [ext_folder src_path, name src_path]) = Some (File d)"
    and diff: "length s \<noteq> length d"
  shows "\<exists>evs. trace (snd (copy_file_task H src_path dst_root w)) = trace w @ evs
     \<and> (\<forall>p. HashCall p \<in> set evs \<longrightarrow> p = src_path)"
proof -
  let ?dd = "dst_root @ [ext_folder src_path]"
  obtain r0 w1 where mk: "makedirs ?dd w = (r0, w1)" by (cases "makedirs ?dd w")
  note da = makedirs_dirs_added[OF mk]
  note f1 = dirs_added_fields[OF da]
  show ?thesis
  proof (cases r0)
    case (Inl e)
    then have "trace (snd (copy_file_task H src_path dst_root w)) = trace w @ []"
      using mk f1 by (simp add: copy_file_task_def copy_file_body_def io_defs Let_def)
    then show ?thesis by (intro exI[of _ "[]"]) simp
  next
    case (Inr u)
    have s1: "node_at w1 src_path = Some (File s)" using da src by (rule dirs_added_Some)
    have n1: "node_at w1 (?dd @ [name src_path]) = Some (File d)"
      using dirs_added_Some[OF da] nat by simp
    obtain r1 w2 where rs: "resolve H src_path ?dd w1 = (r1, w2)"
      by (cases "resolve H src_path ?dd w1")
    have t2: "trace w2 = trace w @ [HashCall src_path]"
      using resolve_size_branch[OF s1 n1 diff rs] f1 by simp
    note rf = resolve_frame[OF rs]
    show ?thesis
    proof (cases r1)
      case (Inl e)
      then have "trace (snd (copy_file_task H src_path dst_root w)) = trace w2"
        using mk rs \<open>r0 = Inr u\<close>
        by (simp add: copy_file_task_def copy_file_body_def io_defs Let_def)
      then show ?thesis using t2 by (intro exI[of _ "[HashCall src_path]"]) simp
    next
      case d: (Inr d)
      from rf(6)[OF d] obtain x where x: "d = Fresh (?dd @ [x]) \<or> d = SkipDuplicate (?dd @ [x])
        \<or> d = RenameCopy (?dd @ [x])" by blast
      let ?t = "?dd @ [x]"
      obtain r3 w3 where cs: "copy_stream src_path ?t w2 = (r3, w3)"
        by (cases "copy_stream src_path ?t w2")
      have tne: "?t \<noteq> []" by simp
      note cf = copy_stream_frame[OF tne cs]
      have "trace (snd (copy_file_task H src_path dst_root w)) = trace w2
          \<or> trace (snd (copy_file_task H src_path dst_root w)) = trace w3"
        using mk rs cs \<open>r0 = Inr u\<close> d x
        by (cases r3) (auto simp: copy_file_task_def copy_file_body_def io_defs Let_def)
      then have "trace (snd (copy_file_task H src_path dst_root w)) = trace w @ [HashCall src_path]
          \<or> trace (snd (copy_file_task H src_path dst_root w))
              = trace w @ [HashCall src_path, WriteOpen ?t (is_dir w2 (butlast ?t))]"
        using cf(4) t2 by auto
      then show ?thesis
      proof
        assume "trace (snd (copy_file_task H src_path dst_root w)) = trace w @ [HashCall src_path]"
        then show ?thesis by (intro exI[of _ "[HashCall src_path]"]) simp
      next
        assume "trace (snd (copy_file_task H src_path dst_root w))
              = trace w @ [HashCall src_path, WriteOpen ?t (is_dir w2 (butlast ?t))]"
        then show ?thesis
          by (intro exI[of _ "[HashCall src_path, WriteOpen ?t (is_dir w2 (butlast ?t))]"]) simp
      qed
    qed
  qed
qed

text \<open>
  Claim C4. When the destination file exists and its size differs from the source's, the
  worker never calls \<^verbatim>\<open>compute_hash\<close> on the destination file: among the events it adds to the
  trace, the only hash call is on the source. When the source can be read and the suffixed
  destination can be written, the outcome is the rename-and-copy: the events are the hash of
  the source and the write of the suffixed file, which then holds the source's bytes.
\<close>

theorem size_mismatch_hashes_source_only:
  assumes src: "node_at w src_path = Some (File s)"
    and nat: "node_at w (dst_root @ [ext_folder src_path, name src_path]) = Some (File d)"
    and diff: "length s \<noteq> length d"
  shows "HashCall (dst_root @ [ext_folder src_path, name src_path])
           \<notin> set (drop (length (trace w)) (trace (snd (copy_file_task H src_path dst_root w))))
     \<and> (src_path \<notin> denied w
          \<and> fst (makedirs (dst_root @ [ext_folder src_path]) w) = Inr ()
          \<and> dst_root @ [ext_folder src_path, new_name src_path (H s)] \<notin> denied w
          \<and> node_at w (dst_root @ [ext_folder src_path, new_name src_path (H s)]) \<noteq> Some Dir
          \<and> dst_root @ [ext_folder src_path, new_name src_path (H s)] \<noteq> src_path \<longrightarrow>
            fst (copy_file_task H src_path dst_root w)
              = Inr (Done (RenameCopy (dst_root @ [ext_folder src_path, new_name src_path (H s)])))
          \<and> node_at (snd (copy_file_task H src_path dst_root w))
                (dst_root @ [ext_folder src_path, new_name src_path (H s)]) = Some (File s)
          \<and> drop (length (trace w)) (trace (snd (copy_file_task H src_path dst_root w)))
              = [HashCall src_path,
                 WriteOpen (dst_root @ [ext_folder src_path, new_name src_path (H s)]) True])"
proof -
  let ?nat = "dst_root @ [ext_folder src_path, name src_path]"
  let ?t = "dst_root @ [ext_folder src_path, new_name src_path (H s)]"
  have ne: "src_path \<noteq> ?nat" using src nat diff by auto
  from size_branch_events[OF src nat diff, of H] obtain evs where
    e: "trace (snd (copy_file_task H src_path dst_root w)) = trace w @ evs"
    "\<forall>p. HashCall p \<in> set evs \<longrightarrow> p = src_path" by blast
  have dr: "drop (length (trace w)) (trace (snd (copy_file_task H src_path dst_root w))) = evs"
    by (simp only: e(1) append_eq_conv_conj drop_append length_append) simp
  have nin: "HashCall ?nat \<notin> set evs"
  proof
    assume "HashCall ?nat \<in> set evs"
    then have "?nat = src_path" using e(2)[rule_format, of ?nat] by simp
    then show False using ne by simp
  qed
  have first: "HashCall ?nat
      \<notin> set (drop (length (trace w)) (trace (snd (copy_file_task H src_path dst_root w))))"
    unfolding dr by (rule nin)
  have second: "fst (copy_file_task H src_path dst_root w) = Inr (Done (RenameCopy ?t))
      \<and> node_at (snd (copy_file_task H src_path dst_root w)) ?t = Some (File s)
      \<and> drop (length (trace w)) (trace (snd (copy_file_task H src_path dst_root w)))
          = [HashCall src_path, WriteOpen ?t True]"
    if rd: "src_path \<notin> denied w" and mk: "fst (makedirs (dst_root @ [ext_folder src_path]) w) = Inr ()"
      and tg: "?t \<notin> denied w" "node_at w ?t \<noteq> Some Dir" "?t \<noteq> src_path"
  proof -
    obtain w1 where mk1: "makedirs (dst_root @ [ext_folder src_path]) w = (Inr (), w1)"
      using mk by (cases "makedirs (dst_root @ [ext_folder src_path]) w") auto
    note r = task_rename_size[where H=H, OF src rd mk1 nat diff tg]
    show ?thesis unfolding r by (simp add: node_at_def update_conv')
  qed
  show ?thesis using first second by blast
qed

lemma example_size_hyps:
  "node_at example_world_size [''src'', ''a.TXT''] = Some (File ''hello'')"
  "node_at example_world_size ([''dest''] @ [ext_folder [''src'', ''a.TXT''], name [''src'', ''a.TXT'']])
     = Some (File ''hi'')"
  "length ''hello'' \<noteq> length ''hi''"
  by code_simp+

lemma example_size_target:
  "[''src'', ''a.TXT''] \<notin> denied example_world_size"
  "fst (makedirs ([''dest''] @ [ext_folder [''src'', ''a.TXT'']]) example_world_size) = Inr ()"
  "[''dest''] @ [ext_folder [''src'', ''a.TXT''],
      new_name [''src'', ''a.TXT''] (sha256_examples ''hello'')] \<notin> denied example_world_size"
  "node_at example_world_size ([''dest''] @ [ext_folder [''src'', ''a.TXT''],
      new_name [''src'', ''a.TXT''] (sha256_examples ''hello'')]) \<noteq> Some Dir"
  "[''dest''] @ [ext_folder [''src'', ''a.TXT''],
      new_name [''src'', ''a.TXT''] (sha256_examples ''hello'')] \<noteq> [''src'', ''a.TXT'']"
  by code_simp+

lemma example_size_trace: "length (trace example_world_size) = 0"
  by code_simp

theorem size_mismatch_hashes_source_only_witness:
  "HashCall [''dest'', ''txt'', ''a.TXT'']
     \<notin> set (trace (snd (copy_file_task sha256_examples [''src'', ''a.TXT''] [''dest'']
                          example_world_size)))
   \<and> fst (copy_file_task sha256_examples [''src'', ''a.TXT''] [''dest''] example_world_size)
       = Inr (Done (RenameCopy [''dest'', ''txt'', ''a_2cf24dba.TXT'']))
   \<and> node_at (snd (copy_file_task sha256_examples [''src'', ''a.TXT''] [''dest'']
                     example_world_size))
        [''dest'', ''txt'', ''a_2cf24dba.TXT''] = Some (File ''hello'')
   \<and> trace (snd (copy_file_task sha256_examples [''src'', ''a.TXT''] [''dest''] example_world_size))
       = [HashCall [''src'', ''a.TXT''], WriteOpen [''dest'', ''txt'', ''a_2cf24dba.TXT''] True]"
  using size_mismatch_hashes_source_only[where H = sha256_examples, OF example_size_hyps]
    example_size_target
  unfolding example_paths example_size_trace by simp

section \<open>Properties of the dispatcher\<close>

lemma path_mkdir_dirs_added: "path_mkdir p w = (r, w') \<Longrightarrow> dirs_added w w'"
proof (induction p w arbitrary: r w' rule: path_mkdir.induct)
  case (1 p w)
  obtain r1 w1 where m1: "os_mkdir p w = (r1, w1)" by (cases "os_mkdir p w")
  note d1 = os_mkdir_dirs_added[OF m1]
  show ?case
  proof (cases "\<exists>e. r1 = Inl e \<and> is_FileNotFoundError e \<and> p \<noteq> []")
    case False
    then have "w' = w1" using "1.prems" m1
      by (subst (asm) path_mkdir.simps) (auto split: sum.splits if_splits)
    with d1 show ?thesis by simp
  next
    case True
    then obtain e where e: "r1 = Inl e" "is_FileNotFoundError e" "p \<noteq> []" by blast
    obtain r2 w2 where m2: "path_mkdir (butlast p) w1 = (r2, w2)"
      by (cases "path_mkdir (butlast p) w1")
    have d2: "dirs_added w1 w2" using "1.IH"[OF m1[symmetric] _ e(2) e(3) m2] e(1) by simp
    show ?thesis
    proof (cases r2)
      case (Inl e')
      then have "w' = w2" using "1.prems" m1 m2 e
        by (subst (asm) path_mkdir.simps) (auto split: sum.splits if_splits)
      with d1 d2 show ?thesis by (auto intro: dirs_added_trans)
    next
      case (Inr u)
      obtain r3 w3 where m3: "os_mkdir p w2 = (r3, w3)" by (cases "os_mkdir p w2")
      have "w' = w3" using "1.prems" m1 m2 m3 e Inr
        by (subst (asm) path_mkdir.simps) (auto split: sum.splits if_splits)
      with d1 d2 os_mkdir_dirs_added[OF m3] show ?thesis by (auto intro: dirs_added_trans)
    qed
  qed
qed

lemma path_mkdir_ok: "path_mkdir p w = (Inr u, w') \<Longrightarrow> is_dir w' p"
  by (subst (asm) path_mkdir.simps)
     (auto split: sum.splits if_splits prod.splits dest: os_mkdir_ok)

lemma for_each_makedirs:
  "for_each (\<lambda>ext. makedirs (dst_path @ [ext])) exts w = (r, w') \<Longrightarrow>
     dirs_added w w' \<and> (r = Inr () \<longrightarrow> (\<forall>e\<in>set exts. is_dir w' (dst_path @ [e])))"
proof (induction exts arbitrary: w r w')
  case Nil
  then show ?case by (simp add: io_return_def)
next
  case (Cons x xs)
  obtain r1 w1 where m: "makedirs (dst_path @ [x]) w = (r1, w1)"
    by (cases "makedirs (dst_path @ [x]) w")
  note d1 = makedirs_dirs_added[OF m]
  show ?case
  proof (cases r1)
    case (Inl e)
    then have "w' = w1" "r = Inl e" using Cons.prems m by (auto simp: io_bind_def)
    with d1 show ?thesis by simp
  next
    case (Inr u)
    then have rest: "for_each (\<lambda>ext. makedirs (dst_path @ [ext])) xs w1 = (r, w')"
      using Cons.prems m by (simp add: io_bind_def)
    note ih = Cons.IH[OF rest]
    have "is_dir w1 (dst_path @ [x])" using m Inr makedirs_ok by blast
    then have "is_dir w' (dst_path @ [x])" using ih dirs_added_is_dir by blast
    with ih d1 show ?thesis by (auto intro: dirs_added_trans)
  qed
qed

lemma prepare_result:
  assumes "prepare src dst w = (Inr files, w')"
  shows "is_dir w src" "dirs_added w w'" "is_dir w' dst"
    "\<exists>w1. dirs_added w w1 \<and> dirs_added w1 w' \<and> files = dispatch_files src dst w1"
    "\<forall>f\<in>set files. is_dir w' (dst @ [ext_folder f])"
proof -
  show sd: "is_dir w src" using assms by (auto simp: prepare_def Let_def split: if_splits)
  obtain r1 w1 where pm: "path_mkdir dst w = (r1, w1)" by (cases "path_mkdir dst w")
  have r1: "r1 = Inr ()" using assms sd pm
    by (cases r1) (auto simp: prepare_def Let_def io_bind_def)
  let ?files = "dispatch_files src dst w1"
  obtain r2 w2 where fe: "for_each (\<lambda>ext. makedirs (dst @ [ext])) (remdups (map ext_folder ?files)) w1
      = (r2, w2)"
    by (cases "for_each (\<lambda>ext. makedirs (dst @ [ext])) (remdups (map ext_folder ?files)) w1")
  have res: "r2 = Inr ()" "files = ?files" "w' = w2" using assms sd pm r1 fe
    by (cases r2; auto simp: prepare_def Let_def io_bind_def io_return_def)+
  note d1 = path_mkdir_dirs_added[OF pm]
  note fm = for_each_makedirs[OF fe]
  show "dirs_added w w'" using d1 fm res by (auto intro: dirs_added_trans)
  have "is_dir w1 dst" using pm r1 path_mkdir_ok by blast
  then show "is_dir w' dst" using fm res dirs_added_is_dir by blast
  show "\<exists>w1. dirs_added w w1 \<and> dirs_added w1 w' \<and> files = dispatch_files src dst w1"
    using d1 fm res by blast
  show "\<forall>f\<in>set files. is_dir w' (dst @ [ext_folder f])" using fm res by auto
qed

lemma prepare_fields:
  assumes "prepare src dst w = (r, w')"
  shows "dirs_added w w'"
proof (cases "is_dir w src")
  case False
  then show ?thesis using assms by (simp add: prepare_def)
next
  case True
  obtain r1 w1 where pm: "path_mkdir dst w = (r1, w1)" by (cases "path_mkdir dst w")
  note d1 = path_mkdir_dirs_added[OF pm]
  show ?thesis
  proof (cases r1)
    case (Inl e)
    then have "w' = w1" using assms True pm by (simp add: prepare_def io_bind_def)
    with d1 show ?thesis by simp
  next
    case (Inr u)
    let ?files = "dispatch_files src dst w1"
    obtain r2 w2 where fe: "for_each (\<lambda>ext. makedirs (dst @ [ext])) (remdups (map ext_folder ?files)) w1
        = (r2, w2)"
      by (cases "for_each (\<lambda>ext. makedirs (dst @ [ext])) (remdups (map ext_folder ?files)) w1")
    have "w' = w2" using assms True pm Inr fe
      by (cases r2) (auto simp: prepare_def Let_def io_bind_def io_return_def)
    with d1 for_each_makedirs[OF fe] show ?thesis by (auto intro: dirs_added_trans)
  qed
qed

lemma dispatch_files_not_under:
  "f \<in> set (dispatch_files src dst w) \<Longrightarrow>
     \<not> strict_prefix dst f \<and> strict_prefix src f \<and> is_file w f"
  by (auto simp: dispatch_files_def rglob_def in_parents_iff Let_def)

lemma task_failed_logged:
  "copy_file_task H src_path dst_root w = (Inr (Failed e), w') \<Longrightarrow>
     \<exists>w0. copy_file_body H src_path dst_root w = (Inl e, w0)
        \<and> w' = w0\<lparr>logged := logged w0 @ [ERROR (msg_error src_path e)]\<rparr>"
  by (auto simp: copy_file_task_def io_defs split: prod.splits sum.splits)

lemma task_catches:
  "copy_file_body H src_path dst_root w = (Inl e, w0) \<Longrightarrow>
     copy_file_task H src_path dst_root w
       = (Inr (Failed e), w0\<lparr>logged := logged w0 @ [ERROR (msg_error src_path e)]\<rparr>)"
  by (simp add: copy_file_task_def io_defs)

lemma task_keeps_dirs:
  assumes "copy_file_task H src_path dst_root w = (r, w')" "node_at w q = Some Dir"
  shows "node_at w' q = Some Dir"
proof (rule ccontr)
  assume "node_at w' q \<noteq> Some Dir"
  then have ch: "node_at w' q \<noteq> node_at w q" using assms(2) by simp
  have "\<forall>q. node_at w' q \<noteq> node_at w q \<longrightarrow> node_at w q \<noteq> Some Dir"
    using task_frame[OF assms(1)] by (elim conjE) (metis option.distinct(1))
  with ch assms(2) show False by blast
qed

lemma gather_tasks:
  "gather (map (\<lambda>f. copy_file_task H f dst) files) w = (r, w') \<Longrightarrow>
     (\<exists>outs. r = Inr outs \<and> length outs = length files
        \<and> (\<forall>e. Failed e \<in> set outs \<longrightarrow> (\<exists>f\<in>set files. ERROR (msg_error f e) \<in> set (logged w'))))
     \<and> denied w' = denied w
     \<and> (\<exists>evs. trace w' = trace w @ evs
           \<and> (\<forall>p b. WriteOpen p b \<in> set evs \<longrightarrow>
                 b \<and> (\<exists>f\<in>set files. butlast p = dst @ [ext_folder f])))
     \<and> (\<exists>ls. logged w' = logged w @ ls)
     \<and> (\<forall>q. node_at w q = Some Dir \<longrightarrow> node_at w' q = Some Dir)"
proof (induction files arbitrary: w r w')
  case Nil
  then show ?case by (simp add: io_return_def)
next
  case (Cons f fs)
  obtain r1 w1 where t: "copy_file_task H f dst w = (r1, w1)" by (cases "copy_file_task H f dst w")
  obtain oc where oc: "r1 = Inr oc" using task_never_raises[of H f dst w] t by auto
  obtain r2 w2 where g: "gather (map (\<lambda>f. copy_file_task H f dst) fs) w1 = (r2, w2)"
    by (cases "gather (map (\<lambda>f. copy_file_task H f dst) fs) w1")
  note ih = Cons.IH[OF g]
  from ih obtain outs where outs: "r2 = Inr outs" "length outs = length fs"
    "\<forall>e. Failed e \<in> set outs \<longrightarrow> (\<exists>f\<in>set fs. ERROR (msg_error f e) \<in> set (logged w2))"
    by blast
  from ih obtain evs2 ls2 where e2: "trace w2 = trace w1 @ evs2"
    "\<forall>p b. WriteOpen p b \<in> set evs2 \<longrightarrow> b \<and> (\<exists>f\<in>set fs. butlast p = dst @ [ext_folder f])"
    and l2: "logged w2 = logged w1 @ ls2" by blast
  note tf = task_frame[OF t]
  from tf obtain evs1 ls1 where e1: "trace w1 = trace w @ evs1"
    "\<forall>p b. WriteOpen p b \<in> set evs1 \<longrightarrow> b \<and> butlast p = dst @ [ext_folder f]"
    and l1: "logged w1 = logged w @ ls1" by blast
  have res: "r = Inr (oc # outs)" "w' = w2" using Cons.prems t g oc outs(1) by auto
  have failed: "\<forall>e. Failed e \<in> set (oc # outs)
      \<longrightarrow> (\<exists>f'\<in>set (f # fs). ERROR (msg_error f' e) \<in> set (logged w2))"
  proof (intro allI impI)
    fix e assume "Failed e \<in> set (oc # outs)"
    then consider "oc = Failed e" | "Failed e \<in> set outs" by auto
    then show "\<exists>f'\<in>set (f # fs). ERROR (msg_error f' e) \<in> set (logged w2)"
    proof cases
      case 1
      then have "ERROR (msg_error f e) \<in> set (logged w1)"
        using task_failed_logged[of H f dst w e w1] t oc by auto
      then show ?thesis using l2 by auto
    next
      case 2
      then show ?thesis using outs(3) by auto
    qed
  qed
  have tr: "trace w2 = trace w @ (evs1 @ evs2)" using e1 e2 by simp
  have fl: "\<forall>p b. WriteOpen p b \<in> set (evs1 @ evs2) \<longrightarrow>
      b \<and> (\<exists>f'\<in>set (f # fs). butlast p = dst @ [ext_folder f'])"
  proof (intro allI impI)
    fix p b assume "WriteOpen p b \<in> set (evs1 @ evs2)"
    then consider "WriteOpen p b \<in> set evs1" | "WriteOpen p b \<in> set evs2" by auto
    then show "b \<and> (\<exists>f'\<in>set (f # fs). butlast p = dst @ [ext_folder f'])"
    proof cases
      case 1
      then have "b \<and> butlast p = dst @ [ext_folder f]" using e1(2) by blast
      then show ?thesis by simp
    next
      case 2
      then have "b \<and> (\<exists>f'\<in>set fs. butlast p = dst @ [ext_folder f'])" using e2(2) by blast
      then show ?thesis by auto
    qed
  qed
  have lg: "logged w2 = logged w @ (ls1 @ ls2)" using l1 l2 by simp
  have dirs: "\<forall>q. node_at w q = Some Dir \<longrightarrow> node_at w2 q = Some Dir"
    using task_keeps_dirs[OF t] ih by blast
  have den: "denied w2 = denied w" using tf ih by simp
  have c1: "\<exists>outs'. Inr (oc # outs) = (Inr outs' :: exn + outcome list)
      \<and> length outs' = length (f # fs)
      \<and> (\<forall>e. Failed e \<in> set outs'
            \<longrightarrow> (\<exists>f'\<in>set (f # fs). ERROR (msg_error f' e) \<in> set (logged w2)))"
  proof (intro exI[of _ "oc # outs"] conjI)
    show "Inr (oc # outs) = (Inr (oc # outs) :: exn + outcome list)" by (rule refl)
    show "length (oc # outs) = length (f # fs)" using outs(2) by simp
    show "\<forall>e. Failed e \<in> set (oc # outs)
        \<longrightarrow> (\<exists>f'\<in>set (f # fs). ERROR (msg_error f' e) \<in> set (logged w2))" by (rule failed)
  qed
  have c3: "\<exists>evs. trace w2 = trace w @ evs
      \<and> (\<forall>p b. WriteOpen p b \<in> set evs \<longrightarrow>
            b \<and> (\<exists>f'\<in>set (f # fs). butlast p = dst @ [ext_folder f']))"
    using tr fl by blast
  have c4: "\<exists>ls. logged w2 = logged w @ ls" using lg by blast
  show ?case unfolding res by (intro conjI) (rule c1 den c3 c4 dirs)+
qed

section \<open>C5, C6, C7 and C3: the run\<close>

text \<open>Unfolding the definitions evaluates a run on a concrete world.\<close>

lemmas eval_defs = copy_file_task_def copy_file_body_def resolve_def io_defs Let_def
  compute_hash_def open_rb_def open_wb_def copy_stream_def file_bytes_def node_at_def is_dir_def
  is_file_def os_mkdir_def makedirs.simps path_mkdir.simps copy_chunks_eq hash_chunks_eq
  butlast_append update_conv' main_async_def prepare_def dispatch_files_def rglob_def
  in_parents_iff

lemma example_tree_names:
  "ext_folder [''s'', ''notes''] = ''no_extension''" "name [''s'', ''notes''] = ''notes''"
  "ext_folder [''s'', ''a.txt''] = ''txt''" "name [''s'', ''a.txt''] = ''a.txt''"
  "ext_folder [''s'', ''sub'', ''a.txt''] = ''txt''" "name [''s'', ''sub'', ''a.txt''] = ''a.txt''"
  "new_name [''s'', ''sub'', ''a.txt''] (sha256_examples ''hi'') = ''a_8f434346.txt''"
  by code_simp+

lemma main_async_after_prepare:
  assumes p: "prepare src dst w = (Inr files, w1)"
    and g: "gather (map (\<lambda>f. copy_file_task H f dst) files) w1 = (Inr outs, w2)"
  shows "main_async H src dst w
           = (Inr (), w2\<lparr>logged := logged w2 @ [INFO ''Processing completed.'']\<rparr>)"
  using p g by (simp add: main_async_def io_bind_def logging_info_def)

text \<open>
  Claim C5. When the source path is not an existing directory, \<^verbatim>\<open>main_async\<close> raises
  \<^verbatim>\<open>NotADirectoryError\<close> and the world is the one it started from: the destination root is
  not created, nothing is enumerated, copied or logged.
\<close>

theorem invalid_source_fails_before_any_work:
  "\<not> is_dir w src \<Longrightarrow> main_async H src dst w = (Inl (NotADirectoryError src), w)"
  by (simp add: main_async_def prepare_def io_bind_def)

lemma example_tree_no_source: "\<not> is_dir example_tree [''missing'']"
  by (simp add: is_dir_def node_at_def example_tree_def)

theorem invalid_source_fails_before_any_work_witness:
  "main_async sha256_examples [''missing''] [''fresh'', ''dest''] example_tree
     = (Inl (NotADirectoryError [''missing'']), example_tree)"
  using invalid_source_fails_before_any_work[OF example_tree_no_source] .

text \<open>
  Claim C6. No file whose path lies under the destination root is in the list of files the
  dispatcher hands to the workers, also when the destination is nested in the source tree;
  the dispatched files are files below the source directory.
\<close>

theorem dispatch_excludes_destination:
  assumes "prepare src dst w = (Inr files, w')"
  shows "\<forall>f\<in>set files. \<not> strict_prefix dst f \<and> strict_prefix src f"
proof -
  from prepare_result(4)[OF assms] obtain w1 where "files = dispatch_files src dst w1" by blast
  then show ?thesis using dispatch_files_not_under by blast
qed

lemma example_tree_prepare_fst:
  "fst (prepare [''s''] [''s'', ''out''] example_tree)
     = Inr [[''s'', ''a.txt''], [''s'', ''sub'', ''a.txt''], [''s'', ''notes'']]"
  by (simp add: eval_defs example_tree_names example_tree_def)

lemma example_tree_prepare:
  "prepare [''s''] [''s'', ''out''] example_tree
     = (Inr [[''s'', ''a.txt''], [''s'', ''sub'', ''a.txt''], [''s'', ''notes'']],
        snd (prepare [''s''] [''s'', ''out''] example_tree))"
  using example_tree_prepare_fst by (simp add: prod_eq_iff)

lemma example_tree_nested:
  "is_file example_tree [''s'', ''out'', ''old.bin'']"
  "strict_prefix [''s''] [''s'', ''out'', ''old.bin'']"
  "strict_prefix [''s'', ''out''] [''s'', ''out'', ''old.bin'']"
  by (simp_all add: is_file_def node_at_def example_tree_def)

theorem dispatch_excludes_destination_witness:
  "fst (prepare [''s''] [''s'', ''out''] example_tree)
     = Inr [[''s'', ''a.txt''], [''s'', ''sub'', ''a.txt''], [''s'', ''notes'']]
   \<and> is_file example_tree [''s'', ''out'', ''old.bin'']
   \<and> strict_prefix [''s''] [''s'', ''out'', ''old.bin'']
   \<and> strict_prefix [''s'', ''out''] [''s'', ''out'', ''old.bin'']
   \<and> \<not> strict_prefix [''s'', ''out''] [''s'', ''a.txt'']
   \<and> \<not> strict_prefix [''s'', ''out''] [''s'', ''sub'', ''a.txt'']
   \<and> \<not> strict_prefix [''s'', ''out''] [''s'', ''notes'']
   \<and> strict_prefix [''s''] [''s'', ''a.txt'']
   \<and> strict_prefix [''s''] [''s'', ''sub'', ''a.txt'']
   \<and> strict_prefix [''s''] [''s'', ''notes'']"
  using dispatch_excludes_destination[OF example_tree_prepare] example_tree_prepare_fst
    example_tree_nested by simp

text \<open>
  Claim C7. Once the dispatcher has pre-created the extension directories, the directory of
  every dispatched file exists under the destination root, before any worker runs; and every
  attempt of the run to open a file for writing is in the extension directory of a dispatched
  file and finds that directory in existence at that moment.
\<close>

theorem extension_directory_exists_before_write:
  assumes "prepare src dst w = (Inr files, w1)"
  shows "(\<forall>f\<in>set files. is_dir w1 (dst @ [ext_folder f]))
     \<and> (\<forall>p b. WriteOpen p b
                 \<in> set (drop (length (trace w)) (trace (snd (main_async H src dst w)))) \<longrightarrow>
            b \<and> (\<exists>f\<in>set files. butlast p = dst @ [ext_folder f]))"
proof -
  obtain r w2 where g: "gather (map (\<lambda>f. copy_file_task H f dst) files) w1 = (r, w2)"
    by (cases "gather (map (\<lambda>f. copy_file_task H f dst) files) w1")
  note gt = gather_tasks[OF g]
  from gt obtain outs where outs: "r = Inr outs" by blast
  from gt obtain evs where evs: "trace w2 = trace w1 @ evs"
    "\<forall>p b. WriteOpen p b \<in> set evs \<longrightarrow> b \<and> (\<exists>f\<in>set files. butlast p = dst @ [ext_folder f])"
    by blast
  have t1: "trace w1 = trace w" using dirs_added_fields[OF prepare_result(2)[OF assms]] by simp
  have "trace (snd (main_async H src dst w)) = trace w @ evs"
    using main_async_after_prepare[OF assms g[unfolded outs]] evs(1) t1 by simp
  then have dr: "drop (length (trace w)) (trace (snd (main_async H src dst w))) = evs" by simp
  show ?thesis unfolding dr using evs(2) prepare_result(5)[OF assms] by (intro conjI)
qed

lemma example_tree_trace:
  "drop (length (trace example_tree))
     (trace (snd (main_async sha256_examples [''s''] [''s'', ''out''] example_tree)))
   = [WriteOpen [''s'', ''out'', ''txt'', ''a.txt''] True,
      HashCall [''s'', ''sub'', ''a.txt''],
      WriteOpen [''s'', ''out'', ''txt'', ''a_8f434346.txt''] True]"
  by (simp add: eval_defs example_tree_names example_tree_def)

lemma example_tree_dirs:
  "map (\<lambda>f. [''s'', ''out''] @ [ext_folder f])
     [[''s'', ''a.txt''], [''s'', ''sub'', ''a.txt''], [''s'', ''notes'']]
   = [[''s'', ''out'', ''txt''], [''s'', ''out'', ''txt''], [''s'', ''out'', ''no_extension'']]"
  by (simp add: example_tree_names)

theorem extension_directory_exists_before_write_witness:
  "is_dir (snd (prepare [''s''] [''s'', ''out''] example_tree)) [''s'', ''out'', ''txt'']
   \<and> is_dir (snd (prepare [''s''] [''s'', ''out''] example_tree)) [''s'', ''out'', ''no_extension'']
   \<and> drop (length (trace example_tree))
       (trace (snd (main_async sha256_examples [''s''] [''s'', ''out''] example_tree)))
     = [WriteOpen [''s'', ''out'', ''txt'', ''a.txt''] True,
        HashCall [''s'', ''sub'', ''a.txt''],
        WriteOpen [''s'', ''out'', ''txt'', ''a_8f434346.txt''] True]"
  using extension_directory_exists_before_write[OF example_tree_prepare, of sha256_examples]
    example_tree_dirs example_tree_trace
  by simp

text \<open>
  Claim C3. An exception raised while a worker processes its file (all of them are
  \<^verbatim>\<open>OSError\<close>s, \<^verbatim>\<open>PermissionError\<close> and the failures of hashing included) is caught in
  \<^verbatim>\<open>copy_file_task\<close> and logged as an error. Once the dispatcher has prepared the run, every
  dispatched file gets an outcome, each failure has its error record in the log, and the run
  returns normally with "Processing completed." as its last log record.
\<close>

theorem per_file_failure_never_aborts_run:
  assumes "prepare src dst w = (Inr files, w1)"
  shows "(copy_file_body H f dst w0 = (Inl e, w0') \<longrightarrow>
            copy_file_task H f dst w0
              = (Inr (Failed e), w0'\<lparr>logged := logged w0' @ [ERROR (msg_error f e)]\<rparr>))
     \<and> (case fst (gather (map (\<lambda>f. copy_file_task H f dst) files) w1) of
           Inl exc \<Rightarrow> False
         | Inr outs \<Rightarrow>
             length outs = length files
             \<and> (\<forall>e. Failed e \<in> set outs \<longrightarrow>
                   (\<exists>f\<in>set files. ERROR (msg_error f e)
                        \<in> set (logged (snd (main_async H src dst w))))))
     \<and> fst (main_async H src dst w) = Inr ()
     \<and> last (logged (snd (main_async H src dst w))) = INFO ''Processing completed.''"
proof -
  obtain r w2 where g: "gather (map (\<lambda>f. copy_file_task H f dst) files) w1 = (r, w2)"
    by (cases "gather (map (\<lambda>f. copy_file_task H f dst) files) w1")
  from gather_tasks[OF g] obtain outs where outs: "r = Inr outs" "length outs = length files"
    "\<forall>e. Failed e \<in> set outs \<longrightarrow> (\<exists>f\<in>set files. ERROR (msg_error f e) \<in> set (logged w2))"
    by blast
  note m = main_async_after_prepare[OF assms g[unfolded outs(1)]]
  have lg: "set (logged w2) \<subseteq> set (logged (snd (main_async H src dst w)))"
    unfolding m by auto
  have a: "copy_file_body H f dst w0 = (Inl e, w0') \<longrightarrow>
            copy_file_task H f dst w0
              = (Inr (Failed e), w0'\<lparr>logged := logged w0' @ [ERROR (msg_error f e)]\<rparr>)"
    using task_catches by blast
  have b: "case fst (gather (map (\<lambda>f. copy_file_task H f dst) files) w1) of
           Inl exc \<Rightarrow> False
         | Inr outs \<Rightarrow>
             length outs = length files
             \<and> (\<forall>e. Failed e \<in> set outs \<longrightarrow>
                   (\<exists>f\<in>set files. ERROR (msg_error f e)
                        \<in> set (logged (snd (main_async H src dst w)))))"
    unfolding g outs(1) using outs(2,3) lg by (simp only: fst_conv sum.case) blast
  have c: "fst (main_async H src dst w) = Inr ()" unfolding m by simp
  have d: "last (logged (snd (main_async H src dst w))) = INFO ''Processing completed.''"
    unfolding m by simp
  show ?thesis using a b c d by (intro conjI)
qed

lemma example_tree_body_fst:
  "fst (copy_file_body sha256_examples [''s'', ''notes''] [''s'', ''out''] example_tree)
     = Inl (PermissionError [''s'', ''notes''])"
  by (simp add: eval_defs example_tree_names example_tree_def)

lemma example_tree_body:
  "copy_file_body sha256_examples [''s'', ''notes''] [''s'', ''out''] example_tree
     = (Inl (PermissionError [''s'', ''notes'']),
        snd (copy_file_body sha256_examples [''s'', ''notes''] [''s'', ''out''] example_tree))"
  using example_tree_body_fst by (simp add: prod_eq_iff)

lemma example_tree_outcomes:
  "fst (gather (map (\<lambda>f. copy_file_task sha256_examples f [''s'', ''out''])
          [[''s'', ''a.txt''], [''s'', ''sub'', ''a.txt''], [''s'', ''notes'']])
        (snd (prepare [''s''] [''s'', ''out''] example_tree)))
   = Inr [Done (Fresh [''s'', ''out'', ''txt'', ''a.txt'']),
          Done (RenameCopy [''s'', ''out'', ''txt'', ''a_8f434346.txt'']),
          Failed (PermissionError [''s'', ''notes''])]"
  by (simp add: eval_defs example_tree_names example_tree_def)

theorem per_file_failure_never_aborts_run_witness:
  "fst (copy_file_task sha256_examples [''s'', ''notes''] [''s'', ''out''] example_tree)
     = Inr (Failed (PermissionError [''s'', ''notes'']))
   \<and> fst (gather (map (\<lambda>f. copy_file_task sha256_examples f [''s'', ''out''])
          [[''s'', ''a.txt''], [''s'', ''sub'', ''a.txt''], [''s'', ''notes'']])
        (snd (prepare [''s''] [''s'', ''out''] example_tree)))
     = Inr [Done (Fresh [''s'', ''out'', ''txt'', ''a.txt'']),
            Done (RenameCopy [''s'', ''out'', ''txt'', ''a_8f434346.txt'']),
            Failed (PermissionError [''s'', ''notes''])]
   \<and> fst (main_async sha256_examples [''s''] [''s'', ''out''] example_tree) = Inr ()
   \<and> last (logged (snd (main_async sha256_examples [''s''] [''s'', ''out''] example_tree)))
     = INFO ''Processing completed.''"
  using per_file_failure_never_aborts_run[OF example_tree_prepare,
      of sha256_examples "[''s'', ''notes'']" example_tree "PermissionError [''s'', ''notes'']"
         "snd (copy_file_body sha256_examples [''s'', ''notes''] [''s'', ''out''] example_tree)"]
    example_tree_body example_tree_outcomes
  by simp

section \<open>C9: the limiter\<close>










end
